(* ===== verification/Prelude.thy ===== *)
theory Prelude
  imports Main
begin

text \<open>
  Shared ground of the development: what a C function of the proxy can do (return, leave
  through \<^verbatim>\<open>ereport(ERROR)\<close>, or run into undefined behaviour), a state monad over the
  process' global variables, C byte buffers with bounds, C strings, and the decimal numerals that
  \<^verbatim>\<open>snprintf\<close> prints.  Nothing here is specific to one source file.
\<close>

section \<open>Outcomes and the program monad\<close>

text \<open>
  \<open>Ret\<close>: the C function returned.  \<open>Exit\<close>: \<^verbatim>\<open>ereport(ERROR, ..)\<close> was reached and did not
  come back (PostgreSQL documents that it never returns to its caller; in a background worker
  without a handler the process ends).  \<open>Fault\<close>: the C code has undefined behaviour here.
\<close>

datatype fault =
  Null_Deref | Out_Of_Bounds | Use_After_Free | Int_Overflow | Uninitialised | Overlapping_Copy

datatype 'a outcome = Ret 'a | Exit string | Fault fault

type_synonym ('s, 'a) prog = "'s \<Rightarrow> 'a outcome \<times> 's"

text \<open>
  The base of every state record.  \<open>error_returns\<close> is a parameter: whether
  \<^verbatim>\<open>ereport(ERROR)\<close> comes back to its caller, as the source's code after it assumes
  (\<open>False\<close> is what PostgreSQL documents).  \<open>mallocs\<close> is the allocator's future: the answers of
  the next calls of \<^verbatim>\<open>malloc\<close>, all successes once the list is used up.
\<close>

record c_env =
  error_returns :: bool
  mallocs :: "bool list"

definition ret :: "'a \<Rightarrow> ('s, 'a) prog" where
  "ret x = (\<lambda>s. (Ret x, s))"

definition bnd :: "('s, 'a) prog \<Rightarrow> ('a \<Rightarrow> ('s, 'b) prog) \<Rightarrow> ('s, 'b) prog" where
  "bnd m f = (\<lambda>s. case m s of
      (Ret x, s') \<Rightarrow> f x s'
    | (Exit e, s') \<Rightarrow> (Exit e, s')
    | (Fault u, s') \<Rightarrow> (Fault u, s'))"

definition sq :: "('s, unit) prog \<Rightarrow> ('s, 'b) prog \<Rightarrow> ('s, 'b) prog" where
  "sq m n = bnd m (\<lambda>_. n)"

definition rd :: "('s \<Rightarrow> 'a) \<Rightarrow> ('s, 'a) prog" where
  "rd f = (\<lambda>s. (Ret (f s), s))"

definition wr :: "('s \<Rightarrow> 's) \<Rightarrow> ('s, unit) prog" where
  "wr f = (\<lambda>s. (Ret (), f s))"

definition flt :: "fault \<Rightarrow> ('s, 'a) prog" where
  "flt u = (\<lambda>s. (Fault u, s))"

text \<open>A C pointer that owns or names a whole object: NULL, dangling (freed or closed), or the
  object's present value.  \<open>deref\<close> is any access through it, \<open>free_ptr\<close> what \<^verbatim>\<open>free\<close> requires of it.\<close>

datatype 'a ptr = NULL | Dangling | Ptr 'a

definition deref :: "'a ptr \<Rightarrow> ('s, 'a) prog" where
  "deref p = (case p of NULL \<Rightarrow> flt Null_Deref | Dangling \<Rightarrow> flt Use_After_Free | Ptr x \<Rightarrow> ret x)"

definition free_ptr :: "'a ptr \<Rightarrow> ('s, unit) prog" where
  "free_ptr p = (if p = Dangling then flt Use_After_Free else ret ())"

definition ereport_ERROR :: "string \<Rightarrow> ('e c_env_scheme, unit) prog" where
  "ereport_ERROR msg = (\<lambda>s. (if error_returns s then Ret () else Exit msg, s))"

named_theorems run \<open>equations that execute a program on a state\<close>

lemma ret_run [run]: "ret x s = (Ret x, s)"
  by (simp add: ret_def)

lemma ret_eq_iff [simp]: "ret x = ret y \<longleftrightarrow> x = y"
  by (auto simp: ret_def fun_eq_iff)

lemma bnd_run [run]:
  "bnd m f s = (case m s of
      (Ret x, s') \<Rightarrow> f x s'
    | (Exit e, s') \<Rightarrow> (Exit e, s')
    | (Fault u, s') \<Rightarrow> (Fault u, s'))"
  by (simp add: bnd_def)

lemma bnd_Ret: "m s = (Ret x, s') \<Longrightarrow> bnd m f s = f x s'"
  by (simp add: bnd_run)

lemma sq_Ret: "m s = (Ret x, s') \<Longrightarrow> sq m n s = n s'"
  by (simp add: sq_def bnd_run)

lemma sq_run [run]: "sq m n s = bnd m (\<lambda>_. n) s"
  by (simp add: sq_def)

lemma rd_run [run]: "rd f s = (Ret (f s), s)"
  by (simp add: rd_def)

lemma wr_run [run]: "wr f s = (Ret (), f s)"
  by (simp add: wr_def)

lemma flt_run [run]: "flt u s = (Fault u, s)"
  by (simp add: flt_def)

lemma deref_run [run]:
  "deref NULL s = (Fault Null_Deref, s)" "deref Dangling s = (Fault Use_After_Free, s)"
  "deref (Ptr x) s = (Ret x, s)"
  by (simp_all add: deref_def flt_def ret_def)

lemma free_ptr_run [run]:
  "free_ptr p s = (if p = Dangling then Fault Use_After_Free else Ret (), s)"
  by (simp add: free_ptr_def flt_def ret_def)

text \<open>Signed 32-bit arithmetic: a result outside the range of \<^verbatim>\<open>int\<close> is undefined behaviour.\<close>

definition int_range :: "int \<Rightarrow> bool" where
  "int_range i \<longleftrightarrow> - (2 ^ 31) \<le> i \<and> i < 2 ^ 31"

definition chk_int :: "int \<Rightarrow> ('s, int) prog" where
  "chk_int i = (if int_range i then ret i else flt Int_Overflow)"

lemma chk_int_run [run]:
  "chk_int i s = (if int_range i then (Ret i, s) else (Fault Int_Overflow, s))"
  by (simp add: chk_int_def ret_def flt_def)

lemma ereport_ERROR_run [run]:
  "ereport_ERROR msg s = (if error_returns s then Ret () else Exit msg, s)"
  by (simp add: ereport_ERROR_def)

lemma bnd_assoc: "bnd (bnd m f) g = bnd m (\<lambda>x. bnd (f x) g)"
  by (rule ext) (simp add: bnd_def split: prod.splits outcome.splits)

lemma bnd_ret [simp]: "bnd (ret x) f = f x" "bnd m ret = m"
  by (rule ext, simp add: bnd_def ret_def split: prod.splits outcome.splits)+

section \<open>C memory: cells, buffers, copies\<close>

text \<open>
  A buffer is a block of bytes of fixed size; \<open>None\<close> is a byte whose value is indeterminate
  (fresh from \<^verbatim>\<open>malloc\<close>, or read past the end of a neighbouring object).  Every access is
  checked against the size of the block.
\<close>

type_synonym cell = "char option"
type_synonym buffer = "cell list"

abbreviation cells :: "string \<Rightarrow> buffer" where
  "cells s \<equiv> map Some s"

abbreviation NUL :: char where "NUL \<equiv> CHR 0x00"
abbreviation CR :: char where "CR \<equiv> CHR 0x0D"
abbreviation LF :: char where "LF \<equiv> CHR 0x0A"
abbreviation CRLF :: string where "CRLF \<equiv> [CR, LF]"

text \<open>\<open>malloc\<close> takes the request before its conversion to \<^verbatim>\<open>size_t\<close>: a negative \<^verbatim>\<open>int\<close>
  becomes a size above \<^verbatim>\<open>PTRDIFF_MAX\<close>, which is never granted.\<close>

definition malloc_grants :: "'e c_env_scheme \<Rightarrow> bool" where
  "malloc_grants s = (case mallocs s of [] \<Rightarrow> True | b # _ \<Rightarrow> b)"

definition malloc :: "int \<Rightarrow> ('e c_env_scheme, buffer ptr) prog" where
  "malloc n = (\<lambda>s.
     (Ret (if 0 \<le> n \<and> n < 2 ^ 63 \<and> malloc_grants s then Ptr (replicate (nat n) None) else NULL),
      s\<lparr>mallocs := tl (mallocs s)\<rparr>))"

definition blit :: "buffer \<Rightarrow> nat \<Rightarrow> buffer \<Rightarrow> buffer" where
  "blit dst d bs = take d dst @ bs @ drop (d + length bs) dst"

text \<open>\<open>memcpy dst d src s n\<close> copies \<open>n\<close> bytes from offset \<open>s\<close> of \<open>src\<close> to offset \<open>d\<close> of \<open>dst\<close>;
  a negative count is a huge \<^verbatim>\<open>size_t\<close> and so out of bounds.\<close>

definition memcpy :: "buffer \<Rightarrow> int \<Rightarrow> buffer \<Rightarrow> int \<Rightarrow> int \<Rightarrow> ('s, buffer) prog" where
  "memcpy dst d src s n =
     (if 0 \<le> d \<and> 0 \<le> s \<and> 0 \<le> n \<and> d + n \<le> int (length dst) \<and> s + n \<le> int (length src)
      then ret (blit dst (nat d) (take (nat n) (drop (nat s) src)))
      else flt Out_Of_Bounds)"

text \<open>Storing known bytes at an offset: an assignment \<^verbatim>\<open>b[d] = c\<close>, or a \<^verbatim>\<open>memcpy\<close> from a literal.\<close>

definition put :: "buffer \<Rightarrow> int \<Rightarrow> string \<Rightarrow> ('s, buffer) prog" where
  "put dst d str = memcpy dst d (cells str) 0 (int (length str))"

definition peek :: "buffer \<Rightarrow> int \<Rightarrow> ('s, cell) prog" where
  "peek b i = (if 0 \<le> i \<and> i < int (length b) then ret (b ! nat i) else flt Out_Of_Bounds)"

lemma malloc_run [run]:
  "malloc n s = (Ret (if 0 \<le> n \<and> n < 2 ^ 63 \<and> malloc_grants s
                      then Ptr (replicate (nat n) None) else NULL),
                 s\<lparr>mallocs := tl (mallocs s)\<rparr>)"
  by (simp add: malloc_def)

lemma length_blit [simp]:
  "d + length bs \<le> length dst \<Longrightarrow> length (blit dst d bs) = length dst"
  by (simp add: blit_def)

lemma memcpy_run [run]:
  "memcpy dst d src s n st =
     (if 0 \<le> d \<and> 0 \<le> s \<and> 0 \<le> n \<and> d + n \<le> int (length dst) \<and> s + n \<le> int (length src)
      then (Ret (blit dst (nat d) (take (nat n) (drop (nat s) src))), st)
      else (Fault Out_Of_Bounds, st))"
  by (simp add: memcpy_def ret_run flt_run)

lemma put_run [run]:
  "put dst d str st =
     (if 0 \<le> d \<and> d + int (length str) \<le> int (length dst)
      then (Ret (blit dst (nat d) (cells str)), st) else (Fault Out_Of_Bounds, st))"
  by (simp add: put_def memcpy_run)

lemma peek_run [run]:
  "peek b i st = (if 0 \<le> i \<and> i < int (length b) then (Ret (b ! nat i), st)
                  else (Fault Out_Of_Bounds, st))"
  by (simp add: peek_def ret_run flt_run)

text \<open>Allocation cannot fail when the allocator has no refusal left.\<close>

definition no_refusal :: "bool list \<Rightarrow> bool" where
  "no_refusal ms \<longleftrightarrow> False \<notin> set ms"

definition mallocs_ok :: "'e c_env_scheme \<Rightarrow> bool" where
  "mallocs_ok s \<longleftrightarrow> no_refusal (mallocs s)"

lemma no_refusal_Nil [simp]: "no_refusal []"
  by (simp add: no_refusal_def)

lemma no_refusal_tl [simp]: "no_refusal ms \<Longrightarrow> no_refusal (tl ms)"
  by (cases ms) (auto simp: no_refusal_def)

lemma no_refusal_drop [simp]: "no_refusal ms \<Longrightarrow> no_refusal (drop n ms)"
  by (auto simp: no_refusal_def dest: in_set_dropD)

lemma no_refusal_grants [simp]: "no_refusal (mallocs s) \<Longrightarrow> malloc_grants s"
  by (cases "mallocs s") (auto simp: malloc_grants_def no_refusal_def)

lemma mallocs_ok_grants [simp]: "mallocs_ok s \<Longrightarrow> malloc_grants s"
  by (simp add: mallocs_ok_def)

lemma mallocs_ok_tl [simp]:
  "mallocs_ok s \<Longrightarrow> mallocs_ok (s\<lparr>mallocs := tl (mallocs s)\<rparr>)"
  "mallocs_ok s \<Longrightarrow> mallocs_ok (s\<lparr>mallocs := drop n (mallocs s)\<rparr>)"
  by (simp_all add: mallocs_ok_def)

section \<open>C strings\<close>

text \<open>\<open>c_string\<close> is what the string functions of C see of a byte block that has a terminator
  behind it: the bytes up to the first NUL.  \<open>read_cstr\<close> reads a C string out of a buffer and
  fails at an indeterminate byte or at the end of the block.\<close>

definition c_string :: "string \<Rightarrow> string" where
  "c_string s = takeWhile (\<lambda>c. c \<noteq> NUL) s"

fun read_cstr :: "buffer \<Rightarrow> string option" where
  "read_cstr [] = None"
| "read_cstr (None # _) = None"
| "read_cstr (Some c # b) = (if c = NUL then Some [] else map_option ((#) c) (read_cstr b))"

lemma c_string_id [simp]: "NUL \<notin> set s \<Longrightarrow> c_string s = s"
  by (induction s) (auto simp: c_string_def)

lemma NUL_notin_c_string [simp]: "NUL \<notin> set (c_string s)"
  by (auto simp: c_string_def dest: set_takeWhileD)

lemma read_cstr_cells [simp]:
  "NUL \<notin> set s \<Longrightarrow> read_cstr (cells s @ Some NUL # b) = Some s"
  by (induction s) auto

section \<open>Decimal numerals\<close>

definition digit :: "nat \<Rightarrow> char" where
  "digit n = char_of (48 + n)"

definition digit_val :: "char \<Rightarrow> int" where
  "digit_val c = int (of_char c) - 48"

definition is_digit :: "char \<Rightarrow> bool" where
  "is_digit c \<longleftrightarrow> 48 \<le> (of_char c :: nat) \<and> (of_char c :: nat) \<le> 57"

fun dec :: "nat \<Rightarrow> string" where
  "dec n = (if n < 10 then [digit n] else dec (n div 10) @ [digit (n mod 10)])"

declare dec.simps [simp del]

text \<open>The conversions \<^verbatim>\<open>%d\<close> and \<^verbatim>\<open>%ld\<close>.\<close>

definition dec_int :: "int \<Rightarrow> string" where
  "dec_int i = (if i < 0 then ''-'' @ dec (nat (- i)) else dec (nat i))"

lemma digit_simps [simp]:
  "digit 0 = CHR ''0''" "digit (Suc 0) = CHR ''1''" "digit 1 = CHR ''1''" "digit 2 = CHR ''2''"
  "digit 3 = CHR ''3''" "digit 4 = CHR ''4''" "digit 5 = CHR ''5''" "digit 6 = CHR ''6''"
  "digit 7 = CHR ''7''" "digit 8 = CHR ''8''" "digit 9 = CHR ''9''"
  by code_simp+

lemma of_char_digit [simp]: "n < 10 \<Longrightarrow> (of_char (digit n) :: nat) = 48 + n"
  by (simp add: digit_def)

lemma digit_val_digit [simp]: "n < 10 \<Longrightarrow> digit_val (digit n) = int n"
  by (simp add: digit_val_def)

lemma is_digit_digit [simp]: "n < 10 \<Longrightarrow> is_digit (digit n)"
  by (simp add: is_digit_def)

lemma dec_digits: "c \<in> set (dec n) \<Longrightarrow> is_digit c"
proof (induction n rule: dec.induct)
  case (1 n)
  then show ?case by (cases "n < 10") (auto simp: dec.simps [of n])
qed

lemma dec_nonempty [simp]: "dec n \<noteq> []"
  by (subst dec.simps) simp

lemma length_dec_pos [simp]: "0 < length (dec n)"
  by simp

lemma length_dec: "n < 10 ^ k \<Longrightarrow> 0 < k \<Longrightarrow> length (dec n) \<le> k"
proof (induction k arbitrary: n)
  case 0
  then show ?case by simp
next
  case (Suc k)
  show ?case
  proof (cases "n < 10")
    case True
    then show ?thesis by (simp add: dec.simps [of n])
  next
    case False
    then have k: "0 < k" using Suc.prems by (cases k) auto
    have "n div 10 < 10 ^ k" using Suc.prems by (simp add: less_mult_imp_div_less mult.commute)
    then have "length (dec (n div 10)) \<le> k" using k by (rule Suc.IH)
    then show ?thesis using False by (simp add: dec.simps [of n])
  qed
qed

text \<open>Reading a numeral digit by digit, as every hand-written number loop does, gives it back.\<close>

definition num_fold :: "int \<Rightarrow> string \<Rightarrow> int" where
  "num_fold a ds = foldl (\<lambda>a c. a * 10 + digit_val c) a ds"

lemma num_fold_simps [simp]:
  "num_fold a [] = a" "num_fold a (c # ds) = num_fold (a * 10 + digit_val c) ds"
  by (simp_all add: num_fold_def)

lemma num_fold_append [simp]: "num_fold a (xs @ ys) = num_fold (num_fold a xs) ys"
  by (simp add: num_fold_def)

lemma num_fold_dec: "num_fold 0 (dec n) = int n"
proof (induction n rule: dec.induct)
  case (1 n)
  have "int (n div 10) * 10 + int (n mod 10) = int n" by presburger
  with 1 show ?case by (cases "n < 10") (simp_all add: dec.simps [of n])
qed

lemma num_fold_nonneg: "0 \<le> a \<Longrightarrow> \<forall>c \<in> set ds. is_digit c \<Longrightarrow> 0 \<le> num_fold a ds"
  by (induction ds arbitrary: a) (auto simp: digit_val_def is_digit_def)

lemma dec_inj: "dec m = dec n \<Longrightarrow> m = n"
  by (metis num_fold_dec of_nat_eq_iff)

lemma is_digit_not_special [simp]:
  "\<not> is_digit CR" "\<not> is_digit LF" "\<not> is_digit NUL" "\<not> is_digit CHR ''*''"
  "\<not> is_digit CHR ''$''" "\<not> is_digit CHR ''-''"
  by (simp_all add: is_digit_def)

end
