(* ===== verification/Proxy_Status.thy ===== *)
theory Proxy_Status
  imports Prelude "HOL-Library.Word"
begin

text \<open>
  The run-time settings of \<^verbatim>\<open>configure_proxy/configure_proxy.h\<close> and \<^verbatim>\<open>.c\<close>: the configuration
  record, the current table, and the getters every other module calls.  (Reading \<^verbatim>\<open>redis.conf\<close> and
  creating the tables, the rest of that file, build on the database module.)
\<close>

datatype dump_status = NO_CACHE | GET_CACHE | ONLY_CACHE | DEFFER_DUMP

text \<open>The enumerators are ordered as their values are in C: up to \<open>GET_CACHE\<close> a write goes through to the
  database, from \<open>ONLY_CACHE\<close> on the cache may run ahead of it.\<close>

primrec enum_value :: "dump_status \<Rightarrow> nat" where
  "enum_value NO_CACHE = 0"
| "enum_value GET_CACHE = 1"
| "enum_value ONLY_CACHE = 2"
| "enum_value DEFFER_DUMP = 3"

instantiation dump_status :: linorder
begin

definition less_eq_dump_status :: "dump_status \<Rightarrow> dump_status \<Rightarrow> bool" where
  "r \<le> r' \<longleftrightarrow> enum_value r \<le> enum_value r'"

definition less_dump_status :: "dump_status \<Rightarrow> dump_status \<Rightarrow> bool" where
  "r < r' \<longleftrightarrow> enum_value r < enum_value r'"

instance
proof
  fix r r' :: dump_status
  show "r \<le> r' \<Longrightarrow> r' \<le> r \<Longrightarrow> r = r'"
    by (cases r; cases r') (simp_all add: less_eq_dump_status_def)
qed (auto simp: less_eq_dump_status_def less_dump_status_def)

end

lemma regime_le [simp]:
  "R \<le> NO_CACHE \<longleftrightarrow> R = NO_CACHE" "R \<le> GET_CACHE \<longleftrightarrow> R = NO_CACHE \<or> R = GET_CACHE"
  "R \<le> DEFFER_DUMP"
  by (cases R; simp add: less_eq_dump_status_def)+

record proxy_status =
  cur_table_name :: buffer
  cur_table_num :: int
  dump_time :: int

record SnapshotData =
  saving_period :: "32 word"
  actions_needed :: "32 word"

record ProxyConfiguration =
  port :: "32 word"
  backlog_size :: "32 word"
  db_count :: "32 word"
  daemonize :: bool
  raw_bind :: "string ptr"
  logfile :: "string ptr"
  snapshotdata_count :: int
  save_data :: "SnapshotData option list ptr"
  caching_regime :: dump_status

definition DEFAULT_CONFIG :: ProxyConfiguration where
  "DEFAULT_CONFIG = \<lparr>port = 6379, backlog_size = 512, db_count = 16, daemonize = False,
     raw_bind = NULL, logfile = NULL, snapshotdata_count = 0, save_data = NULL,
     caching_regime = NO_CACHE\<rparr>"

record proxy_st = c_env +
  config :: ProxyConfiguration
  proxy_configure :: "proxy_status ptr"

text \<open>\<^verbatim>\<open>sizeof(proxy_status)\<close> is 108: 100 bytes of name and two \<^verbatim>\<open>int\<close>s.\<close>

definition init_proxy_status :: "('e proxy_st_scheme, int) prog" where
  "init_proxy_status =
     bnd (malloc 108) (\<lambda>p.
     if p = NULL then sq (ereport_ERROR ''can't malloc proxy_configure'') (ret (-1))
     else
       bnd (put (replicate 100 None) 0 (''redis_0'' @ [NUL])) (\<lambda>name.
       sq (wr (\<lambda>s. s\<lparr>proxy_configure :=
             Ptr \<lparr>cur_table_name = name, cur_table_num = 0, dump_time = 1\<rparr>\<rparr>))
       (ret 0)))"

definition get_dump_time :: "('e proxy_st_scheme, int) prog" where
  "get_dump_time = bnd (rd proxy_configure) (\<lambda>p. bnd (deref p) (\<lambda>q. ret (dump_time q)))"

text \<open>The name is handed on as the C string that its readers see.\<close>

definition get_cur_table_name :: "('e proxy_st_scheme, string) prog" where
  "get_cur_table_name =
     bnd (rd proxy_configure) (\<lambda>p.
     bnd (deref p) (\<lambda>q.
     case read_cstr (cur_table_name q) of None \<Rightarrow> flt Uninitialised | Some n \<Rightarrow> ret n))"

definition get_cur_table_num :: "('e proxy_st_scheme, int) prog" where
  "get_cur_table_num = bnd (rd proxy_configure) (\<lambda>p. bnd (deref p) (\<lambda>q. ret (cur_table_num q)))"

definition get_caching_status :: "('e proxy_st_scheme, dump_status) prog" where
  "get_caching_status = rd (\<lambda>s. caching_regime (config s))"

fun check_table_existence :: "string list \<Rightarrow> string \<Rightarrow> bool" where
  "check_table_existence [] new_table_name = False"
| "check_table_existence (t # ts) new_table_name =
     (if t = new_table_name then True else check_table_existence ts new_table_name)"

section \<open>What the getters return once the status is set up\<close>

text \<open>The status is set up for table \<open>t\<close> with number \<open>n\<close>.\<close>

definition status_ok :: "string \<Rightarrow> int \<Rightarrow> 'e proxy_st_scheme \<Rightarrow> bool" where
  "status_ok t n s \<longleftrightarrow>
     (\<exists>p. proxy_configure s = Ptr p \<and> read_cstr (cur_table_name p) = Some t \<and> cur_table_num p = n)"

lemma status_getters:
  assumes "status_ok t n s"
  shows "get_cur_table_name s = (Ret t, s)" "get_cur_table_num s = (Ret n, s)"
  using assms
  by (auto simp: status_ok_def get_cur_table_name_def get_cur_table_num_def run)

lemma get_caching_status_run [run]: "get_caching_status s = (Ret (caching_regime (config s)), s)"
  by (simp add: get_caching_status_def run)

lemma init_proxy_status_ok:
  assumes "mallocs_ok s"
  shows "\<exists>s'. init_proxy_status s = (Ret 0, s') \<and> status_ok ''redis_0'' 0 s' \<and> config s' = config s"
  using assms
  by (simp add: init_proxy_status_def status_ok_def run blit_def)

lemma check_table_existence_iff [simp]: "check_table_existence ts n \<longleftrightarrow> n \<in> set ts"
  by (induction ts) auto

end
