(* ===== verification/Proxy_Hash.thy ===== *)
theory Proxy_Hash
  imports Proxy_Status
begin

text \<open>
  \<^verbatim>\<open>proxy_hash/proxy_hash.c\<close>: one hash table per database table, of entries of \<open>DATA_SIZE\<close> bytes
  (key, one status byte, value).  PostgreSQL's \<^verbatim>\<open>dynahash\<close> is a parameter (\<open>dynahash\<close>), what the code
  relies on are the laws \<open>dynahash_laws\<close>.  The lemmas give the cache as a finite map from keys to
  \<open>cached\<close> values; the locale \<open>request_cache\<close> is its interface to the request layer.
\<close>

abbreviation (input) KEY_SIZE :: int where "KEY_SIZE \<equiv> 100"
abbreviation (input) DATA_SIZE :: int where "DATA_SIZE \<equiv> 200"
abbreviation (input) VALUE_SIZE :: int where "VALUE_SIZE \<equiv> DATA_SIZE - 1 - KEY_SIZE"

section \<open>The hash table of PostgreSQL, as a parameter\<close>

text \<open>
  \<open>hd_create name keysize entrysize\<close> is \<^verbatim>\<open>hash_create\<close> (\<open>None\<close>: NULL).  \<open>hd_find\<close> is
  \<^verbatim>\<open>hash_search(HASH_FIND)\<close>: the bytes of the entry the returned pointer points to.  \<open>hd_enter\<close> is
  \<^verbatim>\<open>hash_search(HASH_ENTER)\<close>: the table after it, the bytes of the entry, and \<^verbatim>\<open>*found\<close>.
  \<open>hd_store\<close> is what writing through that pointer does to the table.
\<close>

record 'h dynahash =
  hd_create :: "string \<Rightarrow> int \<Rightarrow> int \<Rightarrow> 'h option"
  hd_find :: "'h \<Rightarrow> string \<Rightarrow> buffer option"
  hd_enter :: "'h \<Rightarrow> string \<Rightarrow> ('h \<times> buffer \<times> bool) option"
  hd_store :: "'h \<Rightarrow> string \<Rightarrow> buffer \<Rightarrow> 'h"

text \<open>Keys that fit in the key field as C strings, and an entry that carries its key there.\<close>

definition cache_key :: "string \<Rightarrow> bool" where
  "cache_key k \<longleftrightarrow> NUL \<notin> set k \<and> k \<noteq> [] \<and> int (length k) + 1 < KEY_SIZE"

definition entry_for :: "string \<Rightarrow> buffer \<Rightarrow> bool" where
  "entry_for k e \<longleftrightarrow> int (length e) = DATA_SIZE \<and> take (length k + 1) e = cells k @ [Some NUL]"

text \<open>The documented behaviour of \<^verbatim>\<open>dynahash\<close> on such keys: a new table is empty; HASH_ENTER finds the
  entry or makes one that holds the key, and touches no other key; writing an entry's bytes without
  changing its key is seen by later searches of that key and by no other.\<close>

definition dynahash_laws :: "'h dynahash \<Rightarrow> bool" where
  "dynahash_laws D \<longleftrightarrow>
     (\<forall>n h k. hd_create D n KEY_SIZE DATA_SIZE = Some h \<longrightarrow> hd_find D h k = None) \<and>
     (\<forall>h k. cache_key k \<longrightarrow> hd_enter D h k \<noteq> None) \<and>
     (\<forall>h k h' e f. cache_key k \<longrightarrow> hd_enter D h k = Some (h', e, f) \<longrightarrow>
        entry_for k e \<and> (f \<longleftrightarrow> hd_find D h k \<noteq> None) \<and> (f \<longrightarrow> hd_find D h k = Some e) \<and>
        hd_find D h' k = Some e \<and>
        (\<forall>k'. cache_key k' \<and> k' \<noteq> k \<longrightarrow> hd_find D h' k' = hd_find D h k')) \<and>
     (\<forall>h k e e'. cache_key k \<longrightarrow> hd_find D h k = Some e \<longrightarrow> entry_for k e' \<longrightarrow>
        hd_find D (hd_store D h k e') k = Some e' \<and>
        (\<forall>k'. cache_key k' \<and> k' \<noteq> k \<longrightarrow> hd_find D (hd_store D h k e') k' = hd_find D h k'))"

section \<open>State and operations\<close>

record 'h hash_st = proxy_st +
  hashes :: "'h ptr option list ptr"
  count_hash_table :: int

definition init_hashes :: "int \<Rightarrow> (('h, 'e) hash_st_scheme, int) prog" where
  "init_hashes count_table =
     sq (wr (\<lambda>s. s\<lparr>count_hash_table := count_table\<rparr>))
     (bnd (malloc (count_table * 8)) (\<lambda>p.
      if p = NULL then
        sq (wr (\<lambda>s. s\<lparr>hashes := NULL\<rparr>)) (sq (ereport_ERROR ''can't malloc hashes'') (ret (-1)))
      else sq (wr (\<lambda>s. s\<lparr>hashes := Ptr (replicate (nat count_table) None)\<rparr>)) (ret 0)))"

text \<open>\<^verbatim>\<open>hashes[table_num]\<close>, read and written.\<close>

definition hashes_at :: "int \<Rightarrow> (('h, 'e) hash_st_scheme, 'h) prog" where
  "hashes_at i =
     bnd (rd hashes) (\<lambda>p. bnd (deref p) (\<lambda>arr.
     if 0 \<le> i \<and> i < int (length arr)
     then (case arr ! nat i of None \<Rightarrow> flt Uninitialised | Some t \<Rightarrow> deref t)
     else flt Out_Of_Bounds))"

definition set_hashes_at :: "int \<Rightarrow> 'h ptr \<Rightarrow> (('h, 'e) hash_st_scheme, unit) prog" where
  "set_hashes_at i t =
     bnd (rd hashes) (\<lambda>p. bnd (deref p) (\<lambda>arr.
     if 0 \<le> i \<and> i < int (length arr)
     then wr (\<lambda>s. s\<lparr>hashes := Ptr (arr[nat i := Some t])\<rparr>)
     else flt Out_Of_Bounds))"

definition create_hash_table ::
    "'h dynahash \<Rightarrow> string \<Rightarrow> int \<Rightarrow> (('h, 'e) hash_st_scheme, int) prog" where
  "create_hash_table D table_name table_num =
     (case hd_create D table_name KEY_SIZE DATA_SIZE of
        None \<Rightarrow> sq (ereport_ERROR ''Could not create hash table'') (ret (-1))
      | Some h \<Rightarrow> sq (set_hashes_at table_num (Ptr h)) (ret 0))"

text \<open>The result is the returned \<^verbatim>\<open>char*\<close> (into the entry, behind key and status) and \<^verbatim>\<open>*found\<close>.\<close>

definition check_hash_table ::
    "'h dynahash \<Rightarrow> int \<Rightarrow> string \<Rightarrow> (('h, 'e) hash_st_scheme, buffer ptr \<times> bool) prog" where
  "check_hash_table D table_num key =
     bnd (hashes_at table_num) (\<lambda>h.
     case hd_find D h key of
       Some result \<Rightarrow>
         bnd (peek result KEY_SIZE) (\<lambda>st.
         if st = None then flt Uninitialised
         else if st = Some (CHR 0x01) then ret (NULL, True)
         else ret (Ptr (drop (nat (KEY_SIZE + 1)) result), True))
     | None \<Rightarrow> ret (NULL, False))"

text \<open>The \<open>n\<close> bytes of memory that start at a C string: the string, its terminator, and then bytes
  that belong to some other object and are indeterminate here.\<close>

definition cstr_memory :: "int \<Rightarrow> string \<Rightarrow> buffer" where
  "cstr_memory n v = take (nat n) (cells v @ Some NUL # replicate (nat n) None)"

text \<open>\<^verbatim>\<open>key\<close> and \<^verbatim>\<open>value\<close> are C strings or NULL.  \<^verbatim>\<open>strlen(key + 1)\<close> of an empty key starts behind
  its terminator.\<close>

definition set_hash_table ::
    "'h dynahash \<Rightarrow> int \<Rightarrow> string ptr \<Rightarrow> string ptr \<Rightarrow> char \<Rightarrow> (('h, 'e) hash_st_scheme, int) prog" where
  "set_hash_table D table_num key value new_status =
     (if key = NULL then sq (ereport_ERROR ''key can't be null'') (ret (-1))
      else
        bnd (deref key) (\<lambda>key.
        bnd (hashes_at table_num) (\<lambda>h.
        case hd_enter D h key of
          None \<Rightarrow> sq (ereport_ERROR ''Could not insert or update element in hash table'') (ret (-1))
        | Some (h, result, found) \<Rightarrow>
            if key = [] then flt Out_Of_Bounds
            else
              bnd (put result 0 (take (length (tl key)) key)) (\<lambda>result.
              bnd (if int (length key) + 1 < KEY_SIZE
                   then put result (int (length key) + 1)
                          (replicate (nat (KEY_SIZE - (int (length key) + 1))) NUL)
                   else ret result) (\<lambda>result.
              bnd (put result KEY_SIZE [new_status]) (\<lambda>result.
              bnd (if value \<noteq> NULL
                   then bnd (deref value) (\<lambda>v.
                        memcpy result (KEY_SIZE + 1) (cstr_memory VALUE_SIZE v) 0 VALUE_SIZE)
                   else ret result) (\<lambda>result.
              sq (set_hashes_at table_num (Ptr (hd_store D h key result)))
              (ret 0))))))))"

text \<open>Destroying the tables: every initialised, non-NULL one, then the array.\<close>

fun free_tables :: "'h ptr option list \<Rightarrow> ('s, 'h ptr option list) prog" where
  "free_tables [] = ret []"
| "free_tables (None # ts) = flt Uninitialised"
| "free_tables (Some t # ts) =
     (if t = Dangling then flt Use_After_Free
      else bnd (free_tables ts) (\<lambda>ts. ret (Some NULL # ts)))"

definition free_hashes :: "(('h, 'e) hash_st_scheme, unit) prog" where
  "free_hashes =
     bnd (rd count_hash_table) (\<lambda>n.
     bnd (rd hashes) (\<lambda>p.
     if n \<le> 0 then sq (free_ptr p) (wr (\<lambda>s. s\<lparr>hashes := (if p = NULL then NULL else Dangling)\<rparr>))
     else
       bnd (deref p) (\<lambda>arr.
       if int (length arr) < n then flt Out_Of_Bounds
       else bnd (free_tables (take (nat n) arr)) (\<lambda>_. wr (\<lambda>s. s\<lparr>hashes := Dangling\<rparr>)))))"

section \<open>The cache as a finite map\<close>

datatype cached = Gone | Present string

text \<open>What an entry says: marked deleted, or its value as a C string.\<close>

definition entry_value :: "buffer \<Rightarrow> cached option" where
  "entry_value e =
     (case e ! 100 of
        None \<Rightarrow> None
      | Some st \<Rightarrow> if st = CHR 0x01 then Some Gone else map_option Present (read_cstr (drop 101 e)))"

definition cache_value :: "string \<Rightarrow> bool" where
  "cache_value v \<longleftrightarrow> NUL \<notin> set v \<and> int (length v) + 1 < VALUE_SIZE"

text \<open>Table \<open>t\<close> exists and every entry of it is whole.\<close>

definition table_at :: "int \<Rightarrow> ('h, 'e) hash_st_scheme \<Rightarrow> 'h \<Rightarrow> bool" where
  "table_at t s h \<longleftrightarrow>
     (\<exists>arr. hashes s = Ptr arr \<and> 0 \<le> t \<and> t < int (length arr) \<and> arr ! nat t = Some (Ptr h))"

definition entries_ok :: "'h dynahash \<Rightarrow> 'h \<Rightarrow> bool" where
  "entries_ok D h \<longleftrightarrow>
     (\<forall>k e. cache_key k \<longrightarrow> hd_find D h k = Some e \<longrightarrow> entry_for k e \<and> entry_value e \<noteq> None)"

definition cache_ok :: "'h dynahash \<Rightarrow> int \<Rightarrow> ('h, 'e) hash_st_scheme \<Rightarrow> bool" where
  "cache_ok D t s \<longleftrightarrow> (\<exists>h. table_at t s h \<and> entries_ok D h)"

definition table_view :: "'h dynahash \<Rightarrow> 'h \<Rightarrow> string \<Rightarrow> cached option" where
  "table_view D h k = (case hd_find D h k of None \<Rightarrow> None | Some e \<Rightarrow> entry_value e)"

definition cache_view :: "'h dynahash \<Rightarrow> int \<Rightarrow> ('h, 'e) hash_st_scheme \<Rightarrow> string \<Rightarrow> cached option" where
  "cache_view D t s k =
     (case hashes s of
        Ptr arr \<Rightarrow> (case arr ! nat t of Some (Ptr h) \<Rightarrow> table_view D h k | _ \<Rightarrow> None)
      | _ \<Rightarrow> None)"

lemma cache_view_table: "table_at t s h \<Longrightarrow> cache_view D t s = table_view D h"
  by (rule ext) (auto simp: table_at_def cache_view_def)

lemma hashes_at_run: "table_at t s h \<Longrightarrow> hashes_at t s = (Ret h, s)"
  by (auto simp: table_at_def hashes_at_def run)

lemma set_hashes_at_run:
  "table_at t s h \<Longrightarrow> \<exists>hs. set_hashes_at t (Ptr h') s = (Ret (), s\<lparr>hashes := hs\<rparr>) \<and>
     table_at t (s\<lparr>hashes := hs\<rparr>) h'"
  by (auto simp: table_at_def set_hashes_at_def run)

text \<open>The answer of \<^verbatim>\<open>check_hash_table\<close> for each state of the key.\<close>

fun answers :: "cached option \<Rightarrow> buffer ptr \<times> bool \<Rightarrow> bool" where
  "answers None r \<longleftrightarrow> r = (NULL, False)"
| "answers (Some Gone) r \<longleftrightarrow> r = (NULL, True)"
| "answers (Some (Present v)) r \<longleftrightarrow> (\<exists>b. r = (Ptr b, True) \<and> read_cstr b = Some v)"

lemma check_hash_table_spec:
  assumes "cache_ok D t s" and "cache_key k"
  shows "\<exists>r. check_hash_table D t k s = (Ret r, s) \<and> answers (cache_view D t s k) r"
proof -
  obtain h where h: "table_at t s h" "entries_ok D h" using assms(1) by (auto simp: cache_ok_def)
  show ?thesis
  proof (cases "hd_find D h k")
    case None
    then show ?thesis
      by (simp add: check_hash_table_def run hashes_at_run [OF h(1)] cache_view_table [OF h(1)]
          table_view_def)
  next
    case (Some e)
    with h(2) assms(2) have e: "length e = 200" "entry_value e \<noteq> None"
      by (auto simp: entries_ok_def entry_for_def)
    then obtain st where st: "e ! 100 = Some st" by (cases "e ! 100") (auto simp: entry_value_def)
    have run: "check_hash_table D t k s =
        (Ret (if st = CHR 0x01 then (NULL, True) else (Ptr (drop 101 e), True)), s)"
      using Some e st by (simp add: check_hash_table_def run hashes_at_run [OF h(1)])
    have view: "cache_view D t s k = entry_value e"
      using Some by (simp add: cache_view_table [OF h(1)] table_view_def)
    show ?thesis
      using e(2) st unfolding run view by (auto simp: entry_value_def)
  qed
qed

text \<open>Writing an entry: the key bytes stay, the status and the value are the given ones.\<close>

lemma blit_same:
  assumes "take (length bs) (drop d e) = bs"
  shows "blit e d bs = e"
proof -
  have "blit e d bs = take d e @ take (length bs) (drop d e) @ drop (length bs) (drop d e)"
    using assms by (simp add: blit_def add.commute)
  then show ?thesis by (simp only: append_take_drop_id)
qed

lemma nth_blit:
  "d + length bs \<le> length e \<Longrightarrow> i < length e \<Longrightarrow>
   blit e d bs ! i = (if d \<le> i \<and> i < d + length bs then bs ! (i - d) else e ! i)"
  by (auto simp: blit_def nth_append)

lemma drop_blit_at: "d + length bs \<le> length e \<Longrightarrow> drop d (blit e d bs) = bs @ drop (d + length bs) e"
  by (simp add: blit_def)

lemma drop_blit_before: "d + length bs \<le> m \<Longrightarrow> m \<le> length e \<Longrightarrow> drop m (blit e d bs) = drop m e"
  by (simp add: blit_def)

lemma take_blit_after: "m \<le> d \<Longrightarrow> d \<le> length e \<Longrightarrow> take m (blit e d bs) = take m e"
  by (simp add: blit_def)

lemma entry_for_key_bytes:
  "entry_for k e \<Longrightarrow> j \<le> length k \<Longrightarrow> take j e = cells (take j k)"
proof -
  assume e: "entry_for k e" and j: "j \<le> length k"
  then have "take j e = take j (take (length k + 1) e)" by (simp add: min_def)
  also have "\<dots> = cells (take j k)" using e j by (simp add: entry_for_def take_map)
  finally show ?thesis .
qed

definition written_entry :: "string \<Rightarrow> string ptr \<Rightarrow> char \<Rightarrow> buffer \<Rightarrow> buffer" where
  "written_entry k value st e =
     (let e = blit e (length k + 1) (cells (replicate (99 - length k) NUL));
          e = blit e 100 [Some st]
      in case value of Ptr v \<Rightarrow> blit e 101 (cstr_memory VALUE_SIZE v) | _ \<Rightarrow> e)"

lemma length_cstr_memory [simp]: "length (cstr_memory n v) = nat n"
  by (simp add: cstr_memory_def)

lemma cstr_memory_short:
  "length v < n \<Longrightarrow> cstr_memory (int n) v = cells v @ Some NUL # replicate (n - length v - 1) None"
  by (cases "n - length v") (simp_all add: cstr_memory_def)

lemma written_entry_for:
  assumes "entry_for k e" and "cache_key k"
  shows "entry_for k (written_entry k value st e)"
  using assms
  by (cases "value")
     (simp_all add: written_entry_def entry_for_def cache_key_def Let_def take_blit_after)

lemma written_entry_value:
  assumes "entry_for k e" and "cache_key k"
  shows "value = NULL \<Longrightarrow> entry_value (written_entry k value (CHR 0x01) e) = Some Gone"
    and "cache_value v \<Longrightarrow> entry_value (written_entry k (Ptr v) st e) =
           Some (if st = CHR 0x01 then Gone else Present v)"
  using assms
  by (auto simp: written_entry_def entry_value_def entry_for_def cache_key_def cache_value_def Let_def
      nth_blit drop_blit_at cstr_memory_short [of v 99, simplified])

lemma set_hash_table_run:
  assumes "table_at t s h" and "hd_enter D h k = Some (h', e, f)"
    and "entry_for k e" and "cache_key k" and "value \<noteq> Dangling"
  shows "set_hash_table D t (Ptr k) value st s =
         bnd (set_hashes_at t (Ptr (hd_store D h' k (written_entry k value st e)))) (\<lambda>_. ret 0) s"
proof -
  have len: "length e = 200" using assms(3) by (simp add: entry_for_def)
  have k: "k \<noteq> []" "length k < 99" "length k - Suc 0 \<le> 200" using assms(4) by (auto simp: cache_key_def)
  have same: "blit e 0 (cells (take (length k - Suc 0) k)) = e"
    using entry_for_key_bytes [OF assms(3), of "length k - 1"] by (intro blit_same) simp
  have "nat (100 - (int (length k) + 1)) = 99 - length k" using k by simp
  then show ?thesis
    using assms len k
    by (cases "value")
       (simp_all add: set_hash_table_def run hashes_at_run [OF assms(1)] same written_entry_def Let_def
         nat_add_distrib split: prod.splits outcome.splits)
qed

lemma set_hash_table_spec:
  assumes D: "dynahash_laws D" and ok: "cache_ok D t s" and k: "cache_key k"
    and v: "value = NULL \<and> st = CHR 0x01 \<or> value = Ptr v \<and> cache_value v"
  shows "\<exists>hs. set_hash_table D t (Ptr k) value st s = (Ret 0, s\<lparr>hashes := hs\<rparr>) \<and>
     cache_ok D t (s\<lparr>hashes := hs\<rparr>) \<and>
     (\<forall>k'. cache_key k' \<longrightarrow> cache_view D t (s\<lparr>hashes := hs\<rparr>) k' =
        (if k' = k then Some (if st = CHR 0x01 then Gone else Present v) else cache_view D t s k'))"
proof -
  obtain h where h: "table_at t s h" "entries_ok D h" using ok by (auto simp: cache_ok_def)
  obtain h' e f where en: "hd_enter D h k = Some (h', e, f)"
    using D k unfolding dynahash_laws_def by (metis prod_cases3 option.exhaust)
  have e: "entry_for k e" "hd_find D h' k = Some e"
    and other: "\<And>k'. cache_key k' \<Longrightarrow> k' \<noteq> k \<Longrightarrow> hd_find D h' k' = hd_find D h k'"
    using D k en unfolding dynahash_laws_def by blast+
  define r where "r = written_entry k value st e"
  have r: "entry_for k r" "entry_value r = Some (if st = CHR 0x01 then Gone else Present v)"
    using written_entry_for [OF e(1) k] written_entry_value [OF e(1) k] v by (auto simp: r_def)
  define h2 where "h2 = hd_store D h' k r"
  have h2: "hd_find D h2 k = Some r" "\<And>k'. cache_key k' \<Longrightarrow> k' \<noteq> k \<Longrightarrow> hd_find D h2 k' = hd_find D h k'"
    using D k e(2) r(1) other unfolding dynahash_laws_def h2_def by metis+
  obtain hs where hs: "set_hashes_at t (Ptr h2) s = (Ret (), s\<lparr>hashes := hs\<rparr>)"
    "table_at t (s\<lparr>hashes := hs\<rparr>) h2"
    using set_hashes_at_run [OF h(1)] by blast
  have "set_hash_table D t (Ptr k) value st s = (Ret 0, s\<lparr>hashes := hs\<rparr>)"
    using v hs(1) by (subst set_hash_table_run [OF h(1) en e(1) k]) (auto simp: run r_def h2_def)
  moreover have "entries_ok D h2"
    using h(2) h2 r unfolding entries_ok_def by (metis option.distinct(1) option.inject)
  moreover have "cache_key k' \<Longrightarrow> table_view D h2 k' =
        (if k' = k then Some (if st = CHR 0x01 then Gone else Present v) else table_view D h k')" for k'
    using h2 r by (simp add: table_view_def)
  ultimately show ?thesis
    using hs(2) by (intro exI [of _ hs]) (auto simp: cache_ok_def cache_view_table [OF h(1)]
        cache_view_table [OF hs(2)])
qed

section \<open>The interface to the request layer\<close>

text \<open>A write of the request layer: a value, or a deletion mark (which carries no value).\<close>

type_synonym cache_write = "string \<times> string option"

fun cache_writes ::
    "(string \<Rightarrow> string ptr \<Rightarrow> char \<Rightarrow> ('s, int) prog) \<Rightarrow> cache_write list \<Rightarrow> ('s, unit) prog" where
  "cache_writes store [] = ret ()"
| "cache_writes store ((k, Some v) # ws) = bnd (store k (Ptr v) NUL) (\<lambda>_. cache_writes store ws)"
| "cache_writes store ((k, None) # ws) = bnd (store k NULL (CHR 0x01)) (\<lambda>_. cache_writes store ws)"

definition write_ok :: "cache_write \<Rightarrow> bool" where
  "write_ok w \<longleftrightarrow> cache_key (fst w) \<and> (case snd w of None \<Rightarrow> True | Some v \<Rightarrow> cache_value v)"

definition written :: "string option \<Rightarrow> cached" where
  "written w = (case w of None \<Rightarrow> Gone | Some v \<Rightarrow> Present v)"

locale request_cache =
  fixes check :: "string \<Rightarrow> ('s, buffer ptr \<times> bool) prog"
    and store :: "string \<Rightarrow> string ptr \<Rightarrow> char \<Rightarrow> ('s, int) prog"
    and view :: "'s \<Rightarrow> string \<Rightarrow> cached option"
    and ok :: "'s \<Rightarrow> bool"
  assumes check_spec: "ok s \<Longrightarrow> cache_key k \<Longrightarrow> \<exists>r. check k s = (Ret r, s) \<and> answers (view s k) r"
    and store_spec: "ok s \<Longrightarrow> cache_key k \<Longrightarrow> cache_value v \<Longrightarrow>
      \<exists>s'. store k (Ptr v) NUL s = (Ret 0, s') \<and> ok s' \<and>
        (\<forall>k'. cache_key k' \<longrightarrow> view s' k' = (if k' = k then Some (Present v) else view s k'))"
    and mark_spec: "ok s \<Longrightarrow> cache_key k \<Longrightarrow>
      \<exists>s'. store k NULL (CHR 0x01) s = (Ret 0, s') \<and> ok s' \<and>
        (\<forall>k'. cache_key k' \<longrightarrow> view s' k' = (if k' = k then Some Gone else view s k'))"
begin

lemma write_step:
  assumes "ok s" and "write_ok (k, w)"
  shows "\<exists>s'. cache_writes store ((k, w) # ws) s = cache_writes store ws s' \<and> ok s' \<and>
    (\<forall>k'. cache_key k' \<longrightarrow> view s' k' = (if k' = k then Some (written w) else view s k'))"
proof (cases w)
  case None
  then show ?thesis
    using mark_spec [of s k] assms by (auto simp: write_ok_def written_def run)
next
  case (Some v)
  then show ?thesis
    using store_spec [of s k v] assms by (auto simp: write_ok_def written_def run)
qed

lemma writes_view:
  "ok s \<Longrightarrow> \<forall>w \<in> set ws. write_ok w \<Longrightarrow>
   \<exists>s'. cache_writes store ws s = (Ret (), s') \<and> ok s' \<and>
     (\<forall>k. cache_key k \<longrightarrow> view s' k =
        (case map_of (rev ws) k of None \<Rightarrow> view s k | Some w \<Rightarrow> Some (written w)))"
proof (induction ws arbitrary: s)
  case Nil
  then show ?case by (simp add: run)
next
  case (Cons kw ws)
  obtain k w where kw: "kw = (k, w)" by (cases kw)
  obtain s1 where s1: "cache_writes store (kw # ws) s = cache_writes store ws s1" "ok s1"
    "\<forall>k'. cache_key k' \<longrightarrow> view s1 k' = (if k' = k then Some (written w) else view s k')"
    using write_step [of s k w ws] Cons.prems by (auto simp: kw)
  obtain s2 where s2: "cache_writes store ws s1 = (Ret (), s2)" "ok s2"
    "\<forall>k. cache_key k \<longrightarrow> view s2 k =
        (case map_of (rev ws) k of None \<Rightarrow> view s1 k | Some w \<Rightarrow> Some (written w))"
    using Cons.IH [OF s1(2)] Cons.prems by auto
  show ?case
    using s1 s2 by (intro exI [of _ s2]) (auto simp: kw map_add_def split: option.splits)
qed

lemma writes_then_check:
  assumes "ok s" and "\<forall>w \<in> set ws. write_ok w" and "cache_key k"
  shows "\<exists>r s'. bnd (cache_writes store ws) (\<lambda>_. check k) s = (Ret r, s') \<and> ok s' \<and>
    answers (case map_of (rev ws) k of None \<Rightarrow> view s k | Some w \<Rightarrow> Some (written w)) r"
proof -
  obtain s1 where s1: "cache_writes store ws s = (Ret (), s1)" "ok s1"
    "view s1 k = (case map_of (rev ws) k of None \<Rightarrow> view s k | Some w \<Rightarrow> Some (written w))"
    using writes_view [OF assms(1,2)] assms(3) by blast
  then show ?thesis using check_spec [OF s1(2) assms(3)] by (auto simp: run)
qed

end

interpretation pg_cache: request_cache
  "check_hash_table D t" "\<lambda>k. set_hash_table D t (Ptr k)" "cache_view D t" "\<lambda>s. dynahash_laws D \<and> cache_ok D t s"
  for D :: "'h dynahash" and t :: int
proof (unfold_locales, goal_cases)
  case (1 s k)
  then show ?case by (blast intro: check_hash_table_spec)
next
  case (2 s k v)
  then obtain hs where "set_hash_table D t (Ptr k) (Ptr v) NUL s = (Ret 0, s\<lparr>hashes := hs\<rparr>)"
     "cache_ok D t (s\<lparr>hashes := hs\<rparr>)"
     "\<forall>k'. cache_key k' \<longrightarrow> cache_view D t (s\<lparr>hashes := hs\<rparr>) k' =
        (if k' = k then Some (Present v) else cache_view D t s k')"
    using set_hash_table_spec [of D t s k "Ptr v" NUL v] by auto
  with 2 show ?case by blast
next
  case (3 s k)
  then obtain hs where "set_hash_table D t (Ptr k) NULL (CHR 0x01) s = (Ret 0, s\<lparr>hashes := hs\<rparr>)"
     "cache_ok D t (s\<lparr>hashes := hs\<rparr>)"
     "\<forall>k'. cache_key k' \<longrightarrow> cache_view D t (s\<lparr>hashes := hs\<rparr>) k' =
        (if k' = k then Some Gone else cache_view D t s k')"
    using set_hash_table_spec [of D t s k NULL "CHR 0x01" undefined] by auto
  with 3 show ?case by blast
qed

end
