(* ===== verification/Work_With_Db.thy ===== *)
theory Work_With_Db
  imports Proxy_Hash
begin

text \<open>
  \<^verbatim>\<open>work_with_db/work_with_db.c\<close>: the SQL requests and the transaction buffer.  The database and
  \<^verbatim>\<open>libpq\<close> are a parameter (\<open>libpq\<close>): a server state, what \<^verbatim>\<open>PQexec\<close> does to it and returns, and
  whether a connection succeeds.  \<open>hstore_laws\<close> states what the code relies on: how PostgreSQL
  answers the statements the proxy sends.  The lemmas give each function of the module on every
  branch, and the three requests as operations on the table's \<^verbatim>\<open>hstore\<close>.
\<close>

section \<open>libpq, as a parameter\<close>

datatype ExecStatusType = PGRES_COMMAND_OK | PGRES_TUPLES_OK | PGRES_OTHER

text \<open>A row is the list of its fields; \<^verbatim>\<open>PQgetvalue\<close> gives the empty string for an SQL NULL.\<close>

record pg_result =
  res_status :: ExecStatusType
  res_rows :: "string list list"

record 'd libpq =
  pq_exec :: "'d \<Rightarrow> string \<Rightarrow> pg_result \<times> 'd"
  pq_connect :: "'d \<Rightarrow> string \<Rightarrow> bool"
  os_login :: "string ptr"

definition PQntuples :: "pg_result \<Rightarrow> int" where
  "PQntuples r = int (length (res_rows r))"

definition PQgetvalue :: "pg_result \<Rightarrow> nat \<Rightarrow> nat \<Rightarrow> string ptr" where
  "PQgetvalue r i j =
     (if i < length (res_rows r) \<and> j < length (res_rows r ! i) then Ptr (res_rows r ! i ! j) else NULL)"

definition strlen :: "string \<Rightarrow> int" where
  "strlen v = int (length v)"

definition PQgetlength :: "pg_result \<Rightarrow> nat \<Rightarrow> nat \<Rightarrow> int" where
  "PQgetlength r i j = (case PQgetvalue r i j of Ptr v \<Rightarrow> strlen v | _ \<Rightarrow> 0)"

section \<open>State\<close>

datatype req_result = ERR_REQ | OK | NON

datatype operation_name = SET | DEL

record ('h, 'd) db_st = "'h hash_st" +
  conn :: "unit ptr"
  res :: "pg_result ptr"
  connected :: bool
  transaction :: "buffer ptr"
  cur_position :: int
  full_transaction_size :: int
  server :: 'd

definition PQexec :: "'d libpq \<Rightarrow> string \<Rightarrow> (('h, 'd, 'e) db_st_scheme, unit) prog" where
  "PQexec P sql = (\<lambda>s. case conn s of
       Dangling \<Rightarrow> (Fault Use_After_Free, s)
     | NULL \<Rightarrow> (Ret (), s\<lparr>res := NULL\<rparr>)
     | Ptr _ \<Rightarrow> (Ret (), s\<lparr>res := Ptr (fst (pq_exec P (server s) sql)),
                          server := snd (pq_exec P (server s) sql)\<rparr>))"

definition PQresultStatus :: "(('h, 'd, 'e) db_st_scheme, ExecStatusType) prog" where
  "PQresultStatus = (\<lambda>s. case res s of
       Dangling \<Rightarrow> (Fault Use_After_Free, s)
     | NULL \<Rightarrow> (Ret PGRES_OTHER, s)
     | Ptr r \<Rightarrow> (Ret (res_status r), s))"

definition PQclear :: "(('h, 'd, 'e) db_st_scheme, unit) prog" where
  "PQclear = bnd (rd res) (\<lambda>r. sq (free_ptr r) (if r = NULL then ret () else wr (\<lambda>s. s\<lparr>res := Dangling\<rparr>)))"

definition PQfinish :: "(('h, 'd, 'e) db_st_scheme, unit) prog" where
  "PQfinish = bnd (rd conn) (\<lambda>c. sq (free_ptr c) (if c = NULL then ret () else wr (\<lambda>s. s\<lparr>conn := Dangling\<rparr>)))"

section \<open>The statements\<close>

abbreviation QT :: char where "QT \<equiv> CHR 0x27"

definition sql_select :: "string \<Rightarrow> string \<Rightarrow> string" where
  "sql_select key table = ''SELECT h['' @ [QT] @ key @ [QT] @ ''] FROM '' @ table @ '';''"

definition sql_update :: "string \<Rightarrow> string \<Rightarrow> string \<Rightarrow> string" where
  "sql_update table key value =
     ''UPDATE '' @ table @ '' SET h['' @ [QT] @ key @ [QT] @ '']='' @ [QT] @ value @ [QT] @ '';''"

definition sql_delete :: "string \<Rightarrow> string \<Rightarrow> string" where
  "sql_delete table key = ''UPDATE '' @ table @ '' SET h = delete(h, '' @ [QT] @ key @ [QT] @ '');''"

definition sql_exist :: "string \<Rightarrow> string \<Rightarrow> string" where
  "sql_exist key table = ''SELECT exist(h, '' @ [QT] @ key @ [QT] @ '') FROM '' @ table @ '';''"

definition sql_create_table :: "string \<Rightarrow> string" where
  "sql_create_table table = ''CREATE TABLE '' @ table @ '' (h hstore);''"

definition sql_create_hstore :: "string \<Rightarrow> string" where
  "sql_create_hstore table = ''INSERT INTO '' @ table @ '' VALUES ('' @ [QT, QT] @ '');''"

definition sql_get_tables :: string where
  "sql_get_tables = ''SELECT table_name FROM information_schema.tables WHERE table_schema = '' @
     [QT] @ ''public'' @ [QT]"

abbreviation (input) UPDATE_REQV_SIZE :: int where "UPDATE_REQV_SIZE \<equiv> 21"
abbreviation (input) DELETE_REQV_SIZE :: int where "DELETE_REQV_SIZE \<equiv> 30"
abbreviation (input) CREATE_TABLE_REQV_SIZE :: int where "CREATE_TABLE_REQV_SIZE \<equiv> 25"
abbreviation (input) CREATE_HSTORE_REQV_SIZE :: int where "CREATE_HSTORE_REQV_SIZE \<equiv> 25"
abbreviation (input) FIND_REQV_SIZE :: int where "FIND_REQV_SIZE \<equiv> 26"
abbreviation (input) SELCT_REQV_SIZE :: int where "SELCT_REQV_SIZE \<equiv> 19"
abbreviation (input) BEGIN_REQV_SIZE :: int where "BEGIN_REQV_SIZE \<equiv> 6"
abbreviation (input) COMMIT_REQV_SIZE :: int where "COMMIT_REQV_SIZE \<equiv> 7"
abbreviation (input) TRANSACTION_REQV_SIZE :: int where
  "TRANSACTION_REQV_SIZE \<equiv> BEGIN_REQV_SIZE + COMMIT_REQV_SIZE"

text \<open>A \<^verbatim>\<open>size_t\<close> sum stored in an \<^verbatim>\<open>int\<close>, and the \<^verbatim>\<open>int\<close> that \<^verbatim>\<open>snprintf\<close> returns.\<close>

definition to_int :: "int \<Rightarrow> int" where
  "to_int i = (i + 2 ^ 31) mod 2 ^ 32 - 2 ^ 31"

definition snprintf_ret :: "string \<Rightarrow> int" where
  "snprintf_ret out = (if int (length out) < 2 ^ 31 then int (length out) else -1)"

section \<open>Connection\<close>

definition finish_abnormally :: "(('h, 'd, 'e) db_st_scheme, req_result) prog" where
  "finish_abnormally =
     sq (ereport_ERROR ''Finished wirk with db abnormally'') (sq PQclear (sq PQfinish (ret ERR_REQ)))"

definition init_work_with_db :: "'d libpq \<Rightarrow> (('h, 'd, 'e) db_st_scheme, int) prog" where
  "init_work_with_db P =
     bnd (deref (os_login P)) (\<lambda>user.
     let connect = ''user='' @ user @ '' dbname=postgres'' in
     if 200 \<le> strlen connect then flt Out_Of_Bounds
     else
       sq (wr (\<lambda>s. s\<lparr>conn := Ptr ()\<rparr>))
       (bnd (rd server) (\<lambda>d.
        if \<not> pq_connect P d connect
        then sq (ereport_ERROR ''Connection to database failed'') (sq PQfinish (ret (-1)))
        else sq (wr (\<lambda>s. s\<lparr>connected := True\<rparr>)) (ret 0))))"

definition finish_work_with_db :: "(('h, 'd, 'e) db_st_scheme, unit) prog" where
  "finish_work_with_db = sq (wr (\<lambda>s. s\<lparr>connected := False\<rparr>)) (sq PQclear PQfinish)"

section \<open>The transaction buffer\<close>

definition free_transaction :: "(('h, 'd, 'e) db_st_scheme, unit) prog" where
  "free_transaction =
     sq (wr (\<lambda>s. s\<lparr>cur_position := 0\<rparr>))
     (bnd (rd transaction) (\<lambda>t. sq (free_ptr t) (wr (\<lambda>s. s\<lparr>transaction := NULL\<rparr>))))"

text \<open>The \<^verbatim>\<open>memset\<close> comes before the test for NULL, so a failed allocation is a null dereference.\<close>

definition init_transaction :: "int \<Rightarrow> (('h, 'd, 'e) db_st_scheme, int) prog" where
  "init_transaction transaction_size =
     sq (wr (\<lambda>s. s\<lparr>full_transaction_size := transaction_size + TRANSACTION_REQV_SIZE + 1\<rparr>))
     (bnd (rd full_transaction_size) (\<lambda>n.
      bnd (malloc n) (\<lambda>p.
      sq (wr (\<lambda>s. s\<lparr>transaction := p\<rparr>))
      (bnd (deref p) (\<lambda>_.
       bnd (put (cells (replicate (nat n) NUL)) 0 ''BEGIN;'') (\<lambda>b.
       sq (wr (\<lambda>s. s\<lparr>transaction := Ptr b, cur_position := BEGIN_REQV_SIZE\<rparr>)) (ret 0)))))))"

text \<open>The end of \<^verbatim>\<open>add_set\<close> and \<^verbatim>\<open>add_del\<close>: the statement goes behind what is already there.  The new
  \<^verbatim>\<open>cur_position\<close> is computed in \<^verbatim>\<open>size_t\<close> and stored in an \<^verbatim>\<open>int\<close>.\<close>

definition append_statement :: "string \<Rightarrow> int \<Rightarrow> (('h, 'd, 'e) db_st_scheme, int) prog" where
  "append_statement sql reqv_size =
     bnd (rd transaction) (\<lambda>t. bnd (deref t) (\<lambda>b. bnd (rd cur_position) (\<lambda>pos.
     bnd (memcpy b pos (cells sql) 0 reqv_size) (\<lambda>b.
     sq (wr (\<lambda>s. s\<lparr>transaction := Ptr b, cur_position := to_int (pos + reqv_size)\<rparr>)) (ret 0)))))"

definition add_set :: "int \<Rightarrow> string \<Rightarrow> string \<Rightarrow> string \<Rightarrow> (('h, 'd, 'e) db_st_scheme, int) prog" where
  "add_set param_size key value table_name =
     (let reqv_size = UPDATE_REQV_SIZE + param_size; sql = sql_update table_name key value in
      bnd (malloc (reqv_size + 1)) (\<lambda>UPDATE.
      if UPDATE = NULL then sq (ereport_ERROR ''can't malloc'') (ret (-1))
      else if snprintf_ret sql \<noteq> reqv_size then
        sq (ereport_ERROR ''sprintf err'')
        (sq PQclear (sq PQfinish (sq free_transaction (ret (-1)))))
      else append_statement sql reqv_size))"

definition add_del :: "int \<Rightarrow> string \<Rightarrow> string \<Rightarrow> (('h, 'd, 'e) db_st_scheme, int) prog" where
  "add_del param_size key table_name =
     (let reqv_size = DELETE_REQV_SIZE + param_size; sql = sql_delete table_name key in
      bnd (malloc (reqv_size + 1)) (\<lambda>DELETE.
      if DELETE = NULL then sq (ereport_ERROR ''can't malloc'') (ret (-1))
      else if snprintf_ret sql \<noteq> reqv_size then
        sq (ereport_ERROR ''sprintf err'')
        (sq free_transaction (sq PQclear (sq PQfinish (ret (-1)))))
      else append_statement sql reqv_size))"

definition add_op_in_transaction ::
    "operation_name \<Rightarrow> int \<Rightarrow> string \<Rightarrow> string ptr \<Rightarrow> string \<Rightarrow> (('h, 'd, 'e) db_st_scheme, int) prog" where
  "add_op_in_transaction op_name param_size key value table_name =
     bnd (rd transaction) (\<lambda>t.
     if t = NULL then sq (ereport_ERROR ''can't malloc'') (ret (-1))
     else case op_name of
         SET \<Rightarrow> bnd (deref value) (\<lambda>v. add_set param_size key v table_name)
       | DEL \<Rightarrow> add_del param_size key table_name)"

definition do_transaction :: "'d libpq \<Rightarrow> (('h, 'd, 'e) db_st_scheme, req_result) prog" where
  "do_transaction P =
     bnd (rd connected) (\<lambda>c.
     if \<not> c then sq (ereport_ERROR ''do_transaction: not connected with db'') (ret ERR_REQ)
     else
       bnd (rd transaction) (\<lambda>t. bnd (deref t) (\<lambda>b. bnd (rd cur_position) (\<lambda>pos.
       bnd (put b pos ''COMMIT;'') (\<lambda>b.
       bnd (rd full_transaction_size) (\<lambda>n.
       bnd (put b (n - 1) [NUL]) (\<lambda>b.
       sq (wr (\<lambda>s. s\<lparr>transaction := Ptr b\<rparr>))
       (case read_cstr b of None \<Rightarrow> flt Uninitialised | Some sql \<Rightarrow>
        sq (PQexec P sql)
        (bnd PQresultStatus (\<lambda>st.
         if st \<noteq> PGRES_COMMAND_OK
         then sq (ereport_ERROR ''Setting element in hstore failed'')
                (sq free_transaction finish_abnormally)
         else ret OK))))))))))"

section \<open>The requests\<close>

text \<open>\<open>get_value\<close> threads the two out parameters \<^verbatim>\<open>*value\<close> and \<^verbatim>\<open>*length\<close>.\<close>

definition get_value :: "'d libpq \<Rightarrow> string \<Rightarrow> string \<Rightarrow> string ptr \<times> int \<Rightarrow>
    (('h, 'd, 'e) db_st_scheme, req_result \<times> string ptr \<times> int) prog" where
  "get_value P table key out =
     (let select_reqv_size = to_int (SELCT_REQV_SIZE + strlen key + strlen table);
          sql = sql_select key table in
      bnd (rd connected) (\<lambda>c.
      if \<not> c then sq (ereport_ERROR ''get_value: not connected with db'') (ret (ERR_REQ, out))
      else
        bnd (malloc (select_reqv_size + 1)) (\<lambda>SELECT.
        if SELECT = NULL then sq (ereport_ERROR ''can't malloc'') (ret (ERR_REQ, out))
        else if snprintf_ret sql \<noteq> select_reqv_size then
          sq (ereport_ERROR ''snprintf err select'') (sq PQclear (sq PQfinish (ret (ERR_REQ, out))))
        else
          sq (PQexec P sql)
          (bnd PQresultStatus (\<lambda>st.
           if st \<noteq> PGRES_TUPLES_OK
           then sq (ereport_ERROR ''select table failed'')
                  (bnd finish_abnormally (\<lambda>r. ret (r, out)))
           else
             bnd (rd res) (\<lambda>p. bnd (deref p) (\<lambda>r.
             let value = PQgetvalue r 0 0; length = PQgetlength r 0 0 + 1 in
             if 1 < PQntuples r
             then sq (ereport_ERROR ''get_value: more than one value'') (ret (ERR_REQ, value, length))
             else
               bnd (deref value) (\<lambda>v.
               if v = [] then ret (NON, NULL, length) else ret (OK, value, length)))))))))"

definition set_value :: "'d libpq \<Rightarrow> string \<Rightarrow> string \<Rightarrow> string \<Rightarrow>
    (('h, 'd, 'e) db_st_scheme, req_result) prog" where
  "set_value P table key value =
     (let insert_reqv_size = to_int (UPDATE_REQV_SIZE + strlen table + strlen key + strlen value);
          sql = sql_update table key value in
      bnd (rd connected) (\<lambda>c.
      if \<not> c then sq (ereport_ERROR ''set_value: not connected with bd'') (ret ERR_REQ)
      else
        bnd (malloc (insert_reqv_size + 1)) (\<lambda>INSERT.
        if INSERT = NULL then sq (ereport_ERROR ''can't malloc'') (ret ERR_REQ)
        else if snprintf_ret sql \<noteq> insert_reqv_size then
          sq (ereport_ERROR ''sprintf err'') finish_abnormally
        else
          sq (PQexec P sql)
          (bnd PQresultStatus (\<lambda>st.
           if st \<noteq> PGRES_COMMAND_OK
           then sq (ereport_ERROR ''Setting element in hstore failed'') finish_abnormally
           else ret OK)))))"

definition del_value :: "'d libpq \<Rightarrow> string \<Rightarrow> string \<Rightarrow> (('h, 'd, 'e) db_st_scheme, req_result) prog" where
  "del_value P table key =
     (let size_del_reqv = to_int (DELETE_REQV_SIZE + strlen key + strlen table);
          size_find_reqv = to_int (FIND_REQV_SIZE + strlen key + strlen table) in
      bnd (rd connected) (\<lambda>c.
      if \<not> c then sq (ereport_ERROR ''del_value: not connected with db'') (ret ERR_REQ)
      else
        bnd (malloc (size_del_reqv + 1)) (\<lambda>DELETE.
        if DELETE = NULL then sq (ereport_ERROR ''can't malloc'') finish_abnormally
        else if snprintf_ret (sql_delete table key) \<noteq> size_del_reqv then
          sq (ereport_ERROR ''snprintf err DELETE'') finish_abnormally
        else
          bnd (malloc (size_find_reqv + 1)) (\<lambda>FIND.
          if FIND = NULL then sq (ereport_ERROR ''can't malloc'') finish_abnormally
          else if snprintf_ret (sql_exist key table) \<noteq> size_find_reqv then
            sq (ereport_ERROR ''snpritnf err FIND'') finish_abnormally
          else
            sq (PQexec P (sql_exist key table))
            (bnd PQresultStatus (\<lambda>st.
             if st \<noteq> PGRES_TUPLES_OK
             then sq (ereport_ERROR ''FINDING ELEMENT IN HSTORE FAILED'') finish_abnormally
             else
               bnd (rd res) (\<lambda>p. bnd (deref p) (\<lambda>r.
               if PQntuples r \<noteq> 1
               then sq (ereport_ERROR ''Incorrect result of exist(h, 'key') command'') finish_abnormally
               else
                 bnd (deref (PQgetvalue r 0 0)) (\<lambda>v.
                 if v = ''f'' then ret NON
                 else
                   sq (PQexec P (sql_delete table key))
                   (bnd PQresultStatus (\<lambda>st.
                    if st \<noteq> PGRES_COMMAND_OK
                    then sq (ereport_ERROR ''Deleting element in hstore failed'') finish_abnormally
                    else ret OK)))))))))))"

text \<open>The result's first column; its strings live as long as the result, which is never cleared
  before they are used.  The array is written without a test of its \<^verbatim>\<open>malloc\<close>.\<close>

fun first_column :: "string list list \<Rightarrow> ('s, string list) prog" where
  "first_column [] = ret []"
| "first_column ([] # rows) = flt Null_Deref"
| "first_column ((v # vs) # rows) = bnd (first_column rows) (\<lambda>ts. ret (v # ts))"

definition get_table_name :: "'d libpq \<Rightarrow> (('h, 'd, 'e) db_st_scheme, req_result \<times> string list) prog" where
  "get_table_name P =
     bnd (rd connected) (\<lambda>c.
     if \<not> c then sq (ereport_ERROR ''set_value: not connected with bd'') (ret (ERR_REQ, []))
     else
       sq (PQexec P sql_get_tables)
       (bnd PQresultStatus (\<lambda>st.
        if st \<noteq> PGRES_TUPLES_OK
        then sq (ereport_ERROR ''Query execution failed'') (bnd finish_abnormally (\<lambda>r. ret (r, [])))
        else
          bnd (rd res) (\<lambda>p. bnd (deref p) (\<lambda>r.
          bnd (malloc (PQntuples r * 8)) (\<lambda>names.
          if names = NULL \<and> 0 < PQntuples r then flt Null_Deref
          else bnd (first_column (res_rows r)) (\<lambda>ts. ret (OK, ts))))))))"

definition create_table :: "'d libpq \<Rightarrow> string \<Rightarrow> (('h, 'd, 'e) db_st_scheme, req_result) prog" where
  "create_table P new_table_name =
     (let table_name_size = strlen new_table_name;
          create_t_size = to_int (table_name_size + CREATE_TABLE_REQV_SIZE);
          create_h_size = to_int (table_name_size + CREATE_HSTORE_REQV_SIZE) in
      bnd (malloc (create_t_size + 1)) (\<lambda>CREATE_TABLE.
      if CREATE_TABLE = NULL then sq (ereport_ERROR ''can't malloc'') (ret ERR_REQ)
      else
        bnd (malloc (create_h_size + 1)) (\<lambda>CREATE_HSTORE.
        if CREATE_HSTORE = NULL then sq (ereport_ERROR ''can't malloc'') (ret ERR_REQ)
        else if snprintf_ret (sql_create_table new_table_name) \<noteq> create_t_size then
          sq (ereport_ERROR ''sprintf err'') finish_abnormally
        else
          sq (PQexec P (sql_create_table new_table_name))
          (bnd PQresultStatus (\<lambda>st.
           if st \<noteq> PGRES_COMMAND_OK
           then sq (ereport_ERROR ''creating table failed'') finish_abnormally
           else if snprintf_ret (sql_create_hstore new_table_name) \<noteq> create_h_size then
             sq (ereport_ERROR ''sprintf err'') finish_abnormally
           else
             sq (PQexec P (sql_create_hstore new_table_name))
             (bnd PQresultStatus (\<lambda>st.
              if st \<noteq> PGRES_COMMAND_OK
              then sq (ereport_ERROR ''creating hstore failed'') finish_abnormally
              else ret OK)))))))"

section \<open>What PostgreSQL does with the statements\<close>

text \<open>Text that stands for itself inside a quoted SQL literal: ASCII without NUL, quote and backslash.\<close>

definition sql_safe :: "string \<Rightarrow> bool" where
  "sql_safe x \<longleftrightarrow> (\<forall>c \<in> set x. c \<noteq> NUL \<and> c \<noteq> QT \<and> c \<noteq> CHR 0x5C \<and> (of_char c :: nat) < 128)"

text \<open>A write of one key (\<open>None\<close>: deletion), as a statement and as an update of a map.\<close>

definition write_sql :: "string \<Rightarrow> cache_write \<Rightarrow> string" where
  "write_sql t w = (case snd w of Some v \<Rightarrow> sql_update t (fst w) v | None \<Rightarrow> sql_delete t (fst w))"

definition apply_write :: "cache_write \<Rightarrow> (string \<rightharpoonup> string) \<Rightarrow> (string \<rightharpoonup> string)" where
  "apply_write w m = m(fst w := snd w)"

definition transaction_sql :: "string \<Rightarrow> cache_write list \<Rightarrow> string" where
  "transaction_sql t ws = ''BEGIN;'' @ concat (map (write_sql t) ws) @ ''COMMIT;''"

definition safe_write :: "cache_write \<Rightarrow> bool" where
  "safe_write w \<longleftrightarrow> sql_safe (fst w) \<and> (case snd w of None \<Rightarrow> True | Some v \<Rightarrow> sql_safe v)"

text \<open>
  \<open>hv d t\<close> is the content of the single \<^verbatim>\<open>hstore\<close> of table \<open>t\<close> in server state \<open>d\<close> (\<open>None\<close>: no such
  table).  The laws: \<^verbatim>\<open>h['k']\<close> reads a key and \<^verbatim>\<open>exist\<close> tests it without changing anything, one
  UPDATE changes one key of one table, and a transaction block applies its statements in order.
\<close>

definition hstore_laws :: "'d libpq \<Rightarrow> ('d \<Rightarrow> string \<Rightarrow> (string \<rightharpoonup> string) option) \<Rightarrow> bool" where
  "hstore_laws P hv \<longleftrightarrow> (\<forall>d t m. hv d t = Some m \<longrightarrow>
     (\<forall>k. sql_safe k \<longrightarrow>
        (\<exists>d'. pq_exec P d (sql_select k t) =
                (\<lparr>res_status = PGRES_TUPLES_OK,
                  res_rows = [[case m k of None \<Rightarrow> [] | Some v \<Rightarrow> v]]\<rparr>, d') \<and> hv d' = hv d) \<and>
        (\<exists>d'. pq_exec P d (sql_exist k t) =
                (\<lparr>res_status = PGRES_TUPLES_OK,
                  res_rows = [[if m k = None then ''f'' else ''t'']]\<rparr>, d') \<and> hv d' = hv d)) \<and>
     (\<forall>w. safe_write w \<longrightarrow>
        (\<exists>d' rows. pq_exec P d (write_sql t w) =
                (\<lparr>res_status = PGRES_COMMAND_OK, res_rows = rows\<rparr>, d') \<and>
              hv d' = (hv d)(t \<mapsto> apply_write w m))) \<and>
     (\<forall>ws. (\<forall>w \<in> set ws. safe_write w) \<longrightarrow>
        (\<exists>d' rows. pq_exec P d (transaction_sql t ws) =
                (\<lparr>res_status = PGRES_COMMAND_OK, res_rows = rows\<rparr>, d') \<and>
              hv d' = (hv d)(t \<mapsto> fold apply_write ws m))))"

lemma hstore_select:
  "hstore_laws P hv \<Longrightarrow> hv d t = Some m \<Longrightarrow> sql_safe k \<Longrightarrow>
   \<exists>d'. pq_exec P d (sql_select k t) =
     (\<lparr>res_status = PGRES_TUPLES_OK, res_rows = [[case m k of None \<Rightarrow> [] | Some v \<Rightarrow> v]]\<rparr>, d') \<and>
     hv d' = hv d"
  unfolding hstore_laws_def by blast

lemma hstore_exist:
  "hstore_laws P hv \<Longrightarrow> hv d t = Some m \<Longrightarrow> sql_safe k \<Longrightarrow>
   \<exists>d'. pq_exec P d (sql_exist k t) =
     (\<lparr>res_status = PGRES_TUPLES_OK, res_rows = [[if m k = None then ''f'' else ''t'']]\<rparr>, d') \<and>
     hv d' = hv d"
  unfolding hstore_laws_def by blast

lemma hstore_write:
  "hstore_laws P hv \<Longrightarrow> hv d t = Some m \<Longrightarrow> safe_write w \<Longrightarrow>
   \<exists>d' rows. pq_exec P d (write_sql t w) = (\<lparr>res_status = PGRES_COMMAND_OK, res_rows = rows\<rparr>, d') \<and>
     hv d' = (hv d)(t \<mapsto> apply_write w m)"
  unfolding hstore_laws_def by blast

lemma hstore_transaction:
  "hstore_laws P hv \<Longrightarrow> hv d t = Some m \<Longrightarrow> \<forall>w \<in> set ws. safe_write w \<Longrightarrow>
   \<exists>d' rows. pq_exec P d (transaction_sql t ws) =
       (\<lparr>res_status = PGRES_COMMAND_OK, res_rows = rows\<rparr>, d') \<and>
     hv d' = (hv d)(t \<mapsto> fold apply_write ws m)"
  unfolding hstore_laws_def by blast

section \<open>The sizes computed for the statements are their lengths\<close>

lemma to_int_id [simp]: "int_range i \<Longrightarrow> to_int i = i"
  by (simp add: to_int_def int_range_def)

lemma sql_sizes:
  "strlen (sql_select k t) = SELCT_REQV_SIZE + strlen k + strlen t"
  "strlen (sql_update t k v) = UPDATE_REQV_SIZE + strlen t + strlen k + strlen v"
  "strlen (sql_delete t k) = DELETE_REQV_SIZE + strlen k + strlen t"
  "strlen (sql_exist k t) = FIND_REQV_SIZE + strlen k + strlen t"
  "strlen (sql_create_table t) = strlen t + CREATE_TABLE_REQV_SIZE"
  "strlen (sql_create_hstore t) = strlen t + CREATE_HSTORE_REQV_SIZE"
  by (simp_all add: strlen_def sql_select_def sql_update_def sql_delete_def sql_exist_def
      sql_create_table_def sql_create_hstore_def)

lemma strlen_nonneg [simp]: "0 \<le> strlen v"
  by (simp add: strlen_def)

lemma snprintf_ret_strlen [simp]: "strlen v < 2 ^ 31 \<Longrightarrow> snprintf_ret v = strlen v"
  by (simp add: snprintf_ret_def strlen_def)

section \<open>The requests on a connected database\<close>

text \<open>Connected, memory to be had, and the table's content is \<open>m\<close>.\<close>

definition db_ok :: "('d \<Rightarrow> string \<Rightarrow> (string \<rightharpoonup> string) option) \<Rightarrow> string \<Rightarrow>
    ('h, 'd, 'e) db_st_scheme \<Rightarrow> (string \<rightharpoonup> string) \<Rightarrow> bool" where
  "db_ok hv t s m \<longleftrightarrow> connected s \<and> conn s = Ptr () \<and> mallocs_ok s \<and> hv (server s) t = Some m"

definition get_reply :: "string option \<Rightarrow> req_result \<times> string ptr \<times> int" where
  "get_reply w = (case w of
       None \<Rightarrow> (NON, NULL, 1)
     | Some v \<Rightarrow> if v = [] then (NON, NULL, 1) else (OK, Ptr v, strlen v + 1))"

lemma PQexec_run:
  "conn s = Ptr () \<Longrightarrow> pq_exec P (server s) sql = (r, d) \<Longrightarrow>
   PQexec P sql s = (Ret (), s\<lparr>res := Ptr r, server := d\<rparr>)"
  by (simp add: PQexec_def)

lemma PQresultStatus_run: "res s = Ptr r \<Longrightarrow> PQresultStatus s = (Ret (res_status r), s)"
  by (simp add: PQresultStatus_def)

lemma get_value_spec:
  assumes "hstore_laws P hv" and "db_ok hv t s m" and "sql_safe k"
    and "strlen k + strlen t < 2 ^ 30"
  shows "\<exists>ms r d. get_value P t k out s =
           (Ret (get_reply (m k)), s\<lparr>mallocs := ms, res := r, server := d\<rparr>) \<and>
         db_ok hv t (s\<lparr>mallocs := ms, res := r, server := d\<rparr>) m \<and> hv d = hv (server s)"
proof -
  obtain d where d: "pq_exec P (server s) (sql_select k t) =
     (\<lparr>res_status = PGRES_TUPLES_OK, res_rows = [[case m k of None \<Rightarrow> [] | Some v \<Rightarrow> v]]\<rparr>, d)"
     "hv d = hv (server s)"
    using hstore_select [OF assms(1) _ assms(3)] assms(2) unfolding db_ok_def by blast
  have pos: "0 \<le> strlen k" "0 \<le> strlen t" by simp_all
  then have size: "int_range (SELCT_REQV_SIZE + strlen k + strlen t)"
    and len: "snprintf_ret (sql_select k t) = SELCT_REQV_SIZE + strlen k + strlen t"
    using assms(4) by (simp_all add: int_range_def sql_sizes del: strlen_nonneg)
  show ?thesis
    using assms(2,4) pos d size len
    by (intro exI [of _ "tl (mallocs s)"] exI [of _ d]
        exI [of _ "Ptr \<lparr>res_status = PGRES_TUPLES_OK, res_rows = [[case m k of None \<Rightarrow> [] | Some v \<Rightarrow> v]]\<rparr>"])
       (auto simp: get_value_def db_ok_def run PQexec_def PQresultStatus_def PQntuples_def
         PQgetvalue_def PQgetlength_def get_reply_def Let_def mallocs_ok_def strlen_def [of "_ # _"]
         strlen_def [of "[]"] split: option.splits)
qed

text \<open>One UPDATE that goes through, as \<open>set_value\<close> and \<open>del_value\<close> send it.\<close>

lemma db_write:
  assumes "hstore_laws P hv" and "db_ok hv t s m" and "safe_write w"
  shows "\<exists>r d. PQexec P (write_sql t w) s = (Ret (), s\<lparr>res := Ptr r, server := d\<rparr>) \<and>
           res_status r = PGRES_COMMAND_OK \<and> hv d = (hv (server s))(t \<mapsto> apply_write w m) \<and>
           db_ok hv t (s\<lparr>res := Ptr r, server := d\<rparr>) (apply_write w m)"
proof -
  obtain d rows where "pq_exec P (server s) (write_sql t w) =
      (\<lparr>res_status = PGRES_COMMAND_OK, res_rows = rows\<rparr>, d)"
      "hv d = (hv (server s))(t \<mapsto> apply_write w m)"
    using hstore_write [OF assms(1) _ assms(3)] assms(2) unfolding db_ok_def by blast
  then show ?thesis
    using assms(2)
    by (intro exI [of _ "\<lparr>res_status = PGRES_COMMAND_OK, res_rows = rows\<rparr>"] exI [of _ d])
       (simp add: PQexec_def db_ok_def mallocs_ok_def)
qed

lemma set_value_spec:
  assumes "hstore_laws P hv" and "db_ok hv t s m" and "sql_safe k" and "sql_safe v"
    and "strlen k + strlen t + strlen v < 2 ^ 30"
  shows "\<exists>ms r d. set_value P t k v s = (Ret OK, s\<lparr>mallocs := ms, res := r, server := d\<rparr>) \<and>
         db_ok hv t (s\<lparr>mallocs := ms, res := r, server := d\<rparr>) (m(k \<mapsto> v)) \<and>
         hv d = (hv (server s))(t \<mapsto> m(k \<mapsto> v))"
proof -
  let ?s = "s\<lparr>mallocs := tl (mallocs s)\<rparr>"
  have w: "safe_write (k, Some v)" using assms(3,4) by (simp add: safe_write_def)
  have "db_ok hv t ?s m" using assms(2) by (simp add: db_ok_def)
  from db_write [OF assms(1) this w] obtain r d where ex:
      "PQexec P (sql_update t k v) ?s = (Ret (), ?s\<lparr>res := Ptr r, server := d\<rparr>)"
      "res_status r = PGRES_COMMAND_OK" "hv d = (hv (server s))(t \<mapsto> m(k \<mapsto> v))"
      "db_ok hv t (?s\<lparr>res := Ptr r, server := d\<rparr>) (m(k \<mapsto> v))"
    by (auto simp: write_sql_def apply_write_def)
  have pos: "0 \<le> strlen k" "0 \<le> strlen t" "0 \<le> strlen v" by simp_all
  then have size: "int_range (UPDATE_REQV_SIZE + strlen t + strlen k + strlen v)"
    and len: "snprintf_ret (sql_update t k v) = UPDATE_REQV_SIZE + strlen t + strlen k + strlen v"
    using assms(5) by (simp_all add: int_range_def sql_sizes del: strlen_nonneg)
  have "set_value P t k v s = (Ret OK, ?s\<lparr>res := Ptr r, server := d\<rparr>)"
    using assms(2,5) pos size len ex(1,2)
    by (simp add: set_value_def db_ok_def run Let_def PQresultStatus_def)
  then show ?thesis using ex(3,4) by auto
qed

lemma del_value_spec:
  assumes "hstore_laws P hv" and "db_ok hv t s m" and "sql_safe k" and "strlen k + strlen t < 2 ^ 30"
  shows "\<exists>ms r d. del_value P t k s =
           (Ret (if m k = None then NON else OK), s\<lparr>mallocs := ms, res := r, server := d\<rparr>) \<and>
         db_ok hv t (s\<lparr>mallocs := ms, res := r, server := d\<rparr>) (m(k := None)) \<and>
         hv d = (hv (server s))(t \<mapsto> m(k := None))"
proof -
  let ?s = "s\<lparr>mallocs := tl (tl (mallocs s))\<rparr>"
  let ?r = "\<lparr>res_status = PGRES_TUPLES_OK, res_rows = [[if m k = None then ''f'' else ''t'']]\<rparr>"
  obtain d where d: "pq_exec P (server s) (sql_exist k t) = (?r, d)" "hv d = hv (server s)"
    using hstore_exist [OF assms(1) _ assms(3)] assms(2) unfolding db_ok_def by blast
  let ?s1 = "?s\<lparr>res := Ptr ?r, server := d\<rparr>"
  have ok1: "db_ok hv t ?s1 m" using assms(2) d(2) by (simp add: db_ok_def mallocs_ok_def)
  have pos: "0 \<le> strlen k" "0 \<le> strlen t" by simp_all
  then have size: "int_range (DELETE_REQV_SIZE + strlen k + strlen t)"
      "int_range (FIND_REQV_SIZE + strlen k + strlen t)"
    and len: "snprintf_ret (sql_delete t k) = DELETE_REQV_SIZE + strlen k + strlen t"
      "snprintf_ret (sql_exist k t) = FIND_REQV_SIZE + strlen k + strlen t"
    using assms(4) by (simp_all add: int_range_def sql_sizes del: strlen_nonneg)
  have find: "del_value P t k s =
      (if m k = None then ret NON
       else sq (PQexec P (sql_delete t k))
              (bnd PQresultStatus (\<lambda>st.
               if st \<noteq> PGRES_COMMAND_OK
               then sq (ereport_ERROR ''Deleting element in hstore failed'') finish_abnormally
               else ret OK))) ?s1"
    using assms(2,4) pos size len d(1)
    by (simp add: del_value_def db_ok_def mallocs_ok_def run Let_def PQexec_def PQresultStatus_def
        PQntuples_def PQgetvalue_def)
  show ?thesis
  proof (cases "m k")
    case None
    then have "m(k := None) = m" by auto
    then show ?thesis
      using None find ok1 assms(2) d(2) unfolding db_ok_def
      by (intro exI [of _ "tl (tl (mallocs s))"] exI [of _ "Ptr ?r"] exI [of _ d]) (auto simp: run)
  next
    case (Some v)
    have w: "safe_write (k, None)" using assms(3) by (simp add: safe_write_def)
    from db_write [OF assms(1) ok1 w] obtain r d' where
        "PQexec P (sql_delete t k) ?s1 = (Ret (), ?s1\<lparr>res := Ptr r, server := d'\<rparr>)"
        "res_status r = PGRES_COMMAND_OK" "hv d' = (hv (server s))(t \<mapsto> m(k := None))"
        "db_ok hv t (?s1\<lparr>res := Ptr r, server := d'\<rparr>) (m(k := None))"
      using d(2) by (auto simp: write_sql_def apply_write_def)
    then show ?thesis
      using Some find
      by (intro exI [of _ "tl (tl (mallocs s))"] exI [of _ "Ptr r"] exI [of _ d'])
         (simp add: run PQresultStatus_def)
  qed
qed

section \<open>The transaction buffer holds exactly what was added\<close>

text \<open>A transaction under construction: \<open>pre\<close> is written, the rest of the \<open>n\<close> bytes is zero.\<close>

definition tx_holds :: "string \<Rightarrow> nat \<Rightarrow> ('h, 'd, 'e) db_st_scheme \<Rightarrow> bool" where
  "tx_holds pre n s \<longleftrightarrow>
     transaction s = Ptr (cells (pre @ replicate (n - length pre) NUL)) \<and> length pre \<le> n \<and>
     cur_position s = int (length pre) \<and> full_transaction_size s = int n"

definition tx_frame :: "('h, 'd, 'e) db_st_scheme \<Rightarrow> bool list \<Rightarrow> buffer ptr \<Rightarrow> int \<Rightarrow> int \<Rightarrow>
    ('h, 'd, 'e) db_st_scheme" where
  "tx_frame s ms t pos n =
     s\<lparr>mallocs := ms, transaction := t, cur_position := pos, full_transaction_size := n\<rparr>"

lemma tx_frame_simps [simp]:
  "transaction (tx_frame s ms t pos n) = t" "cur_position (tx_frame s ms t pos n) = pos"
  "full_transaction_size (tx_frame s ms t pos n) = n" "mallocs (tx_frame s ms t pos n) = ms"
  "connected (tx_frame s ms t pos n) = connected s" "conn (tx_frame s ms t pos n) = conn s"
  "res (tx_frame s ms t pos n) = res s" "server (tx_frame s ms t pos n) = server s"
  "hashes (tx_frame s ms t pos n) = hashes s" "config (tx_frame s ms t pos n) = config s"
  "proxy_configure (tx_frame s ms t pos n) = proxy_configure s"
  "error_returns (tx_frame s ms t pos n) = error_returns s"
  "tx_frame (tx_frame s ms t pos n) ms' t' pos' n' = tx_frame s ms' t' pos' n'"
  by (simp_all add: tx_frame_def)

lemma init_transaction_spec:
  assumes "mallocs_ok s" and "0 \<le> n" and "n < 2 ^ 62"
  shows "\<exists>t. init_transaction n s = (Ret 0, tx_frame s (tl (mallocs s)) t 6 (n + 14)) \<and>
    tx_holds ''BEGIN;'' (nat n + 14) (tx_frame s (tl (mallocs s)) t 6 (n + 14))"
  using assms
  by (simp add: init_transaction_def run tx_holds_def tx_frame_def blit_def mallocs_ok_def
      nat_add_distrib map_replicate)

lemma append_statement_spec:
  assumes "tx_holds pre n s" and "length pre + length sql \<le> n" and "int n < 2 ^ 31"
  shows "\<exists>t. append_statement sql (strlen sql) s =
      (Ret 0, tx_frame s (mallocs s) t (int (length (pre @ sql))) (int n)) \<and>
    tx_holds (pre @ sql) n (tx_frame s (mallocs s) t (int (length (pre @ sql))) (int n))"
proof -
  let ?b = "cells (pre @ replicate (n - length pre) NUL)"
  have blit: "blit ?b (length pre) (cells sql) = cells ((pre @ sql) @ replicate (n - length (pre @ sql)) NUL)"
    using assms by (simp add: blit_def)
  have "to_int (int (length pre) + strlen sql) = int (length pre) + strlen sql"
    using assms(2,3) by (intro to_int_id) (simp add: int_range_def strlen_def)
  then have "append_statement sql (strlen sql) s =
      (Ret 0, s\<lparr>transaction := Ptr (blit ?b (length pre) (cells sql)),
               cur_position := int (length pre) + strlen sql\<rparr>)"
    using assms by (simp add: append_statement_def tx_holds_def run strlen_def)
  then show ?thesis
    using assms unfolding blit
    by (intro exI [of _ "Ptr (cells ((pre @ sql) @ replicate (n - length (pre @ sql)) NUL))"])
       (simp add: tx_holds_def tx_frame_def strlen_def)
qed

text \<open>Adding one operation to the transaction, with the parameter size that the log computes.\<close>

definition write_op :: "cache_write \<Rightarrow> operation_name" where
  "write_op w = (case snd w of None \<Rightarrow> DEL | Some _ \<Rightarrow> SET)"

definition param_size_of :: "string \<Rightarrow> cache_write \<Rightarrow> int" where
  "param_size_of t w = (case snd w of None \<Rightarrow> 0 | Some v \<Rightarrow> strlen v) + strlen (fst w) + strlen t"

lemma add_op_in_transaction_spec:
  assumes "tx_holds pre n s" and "length pre + length (write_sql t w) \<le> n" and "int n < 2 ^ 31"
    and "mallocs_ok s" and "\<And>v. snd w = Some v \<Longrightarrow> vp = Ptr v"
  shows "\<exists>tb. add_op_in_transaction (write_op w) (param_size_of t w) (fst w) vp t s =
      (Ret 0, tx_frame s (tl (mallocs s)) tb (int (length (pre @ write_sql t w))) (int n)) \<and>
    tx_holds (pre @ write_sql t w) n
      (tx_frame s (tl (mallocs s)) tb (int (length (pre @ write_sql t w))) (int n))"
proof -
  let ?s = "s\<lparr>mallocs := tl (mallocs s)\<rparr>"
  have tx: "tx_holds pre n ?s" using assms(1) by (simp add: tx_holds_def)
  have len: "strlen (write_sql t w) < 2 ^ 31" using assms(2,3) by (simp add: strlen_def)
  have "add_op_in_transaction (write_op w) (param_size_of t w) (fst w) vp t s =
      append_statement (write_sql t w) (strlen (write_sql t w)) ?s"
  proof (cases "snd w")
    case None
    then have "0 \<le> strlen (sql_delete t (fst w))" "strlen (sql_delete t (fst w)) < 2 ^ 31"
      using len by (simp_all add: write_sql_def)
    with None show ?thesis
      using assms(1,4)
      by (simp add: add_op_in_transaction_def write_op_def param_size_of_def add_del_def write_sql_def
          tx_holds_def run Let_def sql_sizes ac_simps)
  next
    case (Some u)
    then have "0 \<le> strlen (sql_update t (fst w) u)" "strlen (sql_update t (fst w) u) < 2 ^ 31"
      using len by (simp_all add: write_sql_def)
    with Some show ?thesis
      using assms(1,4,5)
      by (simp add: add_op_in_transaction_def write_op_def param_size_of_def add_set_def write_sql_def
          tx_holds_def run Let_def sql_sizes ac_simps)
  qed
  then show ?thesis
    using append_statement_spec [OF tx assms(2,3)] by (simp add: tx_frame_def)
qed

lemma do_transaction_spec:
  assumes "tx_holds pre n s" and "n = length pre + 8" and "NUL \<notin> set pre"
    and "connected s" and "conn s = Ptr ()"
    and "pq_exec P (server s) (pre @ ''COMMIT;'') = (\<lparr>res_status = PGRES_COMMAND_OK, res_rows = rows\<rparr>, d)"
  shows "do_transaction P s =
    (Ret OK, s\<lparr>transaction := Ptr (cells (pre @ ''COMMIT;'') @ [Some NUL]),
              res := Ptr \<lparr>res_status = PGRES_COMMAND_OK, res_rows = rows\<rparr>, server := d\<rparr>)"
proof -
  let ?b = "cells (pre @ ''COMMIT;'') @ [Some NUL]"
  have eight: "replicate 8 (Some NUL) = replicate 7 (Some NUL) @ [Some NUL]"
    by (simp add: eval_nat_numeral)
  have "put (cells (pre @ replicate 8 NUL)) (int (length pre)) ''COMMIT;'' s = (Ret ?b, s)"
    by (simp add: put_run blit_def eight)
  moreover have "put ?b (int n - 1) [NUL] s = (Ret ?b, s)"
    using assms(2) by (simp add: put_run blit_def nat_add_distrib)
  moreover have "read_cstr ?b = Some (pre @ ''COMMIT;'')"
    using assms(3) by (intro read_cstr_cells) auto
  ultimately show ?thesis
    using assms
    by (simp add: do_transaction_def tx_holds_def run PQexec_def PQresultStatus_def del: put_run)
qed

end
