(* ===== verification/Logger.thy ===== *)
theory Logger
  imports Work_With_Db
begin

text \<open>
  \<^verbatim>\<open>logger/logger.c\<close>: the log of operations not yet in the database, a singly linked list of nodes
  that are kept and overwritten after a flush.  Nodes live in an explicit store (\<open>op_nodes\<close>, the
  address is the index), pointers are addresses.  \<open>log_operation\<close> is \<^verbatim>\<open>add_log\<close> up to its forced
  synchronisation, which needs the request layer and is added there.  \<open>log_holds\<close> relates the
  store to the list of pending writes; the locale \<open>write_log\<close> is the log's interface.
\<close>

abbreviation (input) MAX_COUNT_OPERATION :: int where "MAX_COUNT_OPERATION \<equiv> 10000"

record operation =
  op_name :: operation_name
  op_key :: buffer
  op_value :: buffer
  key_size :: int
  value_size :: int
  next_op :: "nat ptr"

record logger =
  cur_op :: "nat ptr"
  first_op :: "nat ptr"
  sum_size_operation :: int
  count_operation :: int

record ('h, 'd) log_st = "('h, 'd) db_st" +
  logger_op :: "logger ptr"
  op_nodes :: "operation option list"

section \<open>Nodes and the log's fields\<close>

text \<open>\<^verbatim>\<open>sizeof(logger)\<close> is 32; \<^verbatim>\<open>sizeof(operation)\<close> is 232: 4 + 100 + 99 bytes, padding, three words.\<close>

definition read_node :: "nat ptr \<Rightarrow> (('h, 'd, 'e) log_st_scheme, operation) prog" where
  "read_node p =
     bnd (deref p) (\<lambda>a. bnd (rd op_nodes) (\<lambda>ns.
     if a < length ns
     then (case ns ! a of None \<Rightarrow> flt Use_After_Free | Some n \<Rightarrow> ret n)
     else flt Out_Of_Bounds))"

definition write_node :: "nat ptr \<Rightarrow> operation \<Rightarrow> (('h, 'd, 'e) log_st_scheme, unit) prog" where
  "write_node p n =
     bnd (deref p) (\<lambda>a. bnd (read_node p) (\<lambda>_.
     wr (\<lambda>s. s\<lparr>op_nodes := (op_nodes s)[a := Some n]\<rparr>)))"

text \<open>A new node: its bytes are indeterminate.  (The scalar fields, which have no indeterminate
  value here, are all assigned before they are read.)\<close>

definition raw_node :: operation where
  "raw_node = \<lparr>op_name = SET, op_key = replicate 100 None, op_value = replicate 99 None,
     key_size = 0, value_size = 0, next_op = NULL\<rparr>"

definition malloc_node :: "(('h, 'd, 'e) log_st_scheme, nat ptr) prog" where
  "malloc_node =
     bnd (malloc 232) (\<lambda>p.
     if p = NULL then ret NULL
     else bnd (rd (\<lambda>s. length (op_nodes s))) (\<lambda>a.
          sq (wr (\<lambda>s. s\<lparr>op_nodes := op_nodes s @ [Some raw_node]\<rparr>)) (ret (Ptr a))))"

definition the_logger :: "(('h, 'd, 'e) log_st_scheme, logger) prog" where
  "the_logger = bnd (rd logger_op) deref"

definition set_logger :: "(logger \<Rightarrow> logger) \<Rightarrow> (('h, 'd, 'e) log_st_scheme, unit) prog" where
  "set_logger f = bnd the_logger (\<lambda>l. wr (\<lambda>s. s\<lparr>logger_op := Ptr (f l)\<rparr>))"

section \<open>The functions of the module\<close>

definition init_logger :: "(('h, 'd, 'e) log_st_scheme, int) prog" where
  "init_logger =
     bnd (malloc 32) (\<lambda>p.
     if p = NULL then
       sq (wr (\<lambda>s. s\<lparr>logger_op := NULL\<rparr>)) (sq (ereport_ERROR ''can't malloc logger_op'') (ret (-1)))
     else
       sq (wr (\<lambda>s. s\<lparr>logger_op := Ptr \<lparr>cur_op = NULL, first_op = NULL, sum_size_operation = 0,
                                     count_operation = 0\<rparr>\<rparr>)) (ret 0))"

text \<open>Which node the next operation goes to: the first of \<^verbatim>\<open>add_log\<close>'s three cases makes the first
  node, the second appends one, the third moves on to a node kept from before a flush; with none of
  them (just after a flush) the current node is overwritten.  The result is -1 or 0; in the second
  case a failed allocation is dereferenced.\<close>

definition select_node :: "(('h, 'd, 'e) log_st_scheme, int) prog" where
  "select_node =
     bnd the_logger (\<lambda>l.
     if cur_op l = NULL then
       bnd malloc_node (\<lambda>p.
       sq (set_logger (\<lambda>l. l\<lparr>cur_op := p\<rparr>))
       (if p = NULL then sq (ereport_ERROR ''can't malloc logger_op->cur_op'') (ret (-1))
        else
          sq (set_logger (\<lambda>l. if first_op l = NULL then l\<lparr>first_op := p\<rparr> else l))
          (bnd (read_node p) (\<lambda>n. sq (write_node p (n\<lparr>next_op := NULL\<rparr>)) (ret 0)))))
     else
       bnd (read_node (cur_op l)) (\<lambda>c.
       if next_op c = NULL \<and> sum_size_operation l \<noteq> 0 then
         bnd malloc_node (\<lambda>p.
         sq (write_node (cur_op l) (c\<lparr>next_op := p\<rparr>))
         (sq (set_logger (\<lambda>l. l\<lparr>cur_op := p\<rparr>))
         (bnd (read_node p) (\<lambda>n. sq (write_node p (n\<lparr>next_op := NULL\<rparr>)) (ret 0)))))
       else if sum_size_operation l \<noteq> 0 then
         sq (set_logger (\<lambda>l. l\<lparr>cur_op := next_op c\<rparr>)) (ret 0)
       else ret 0))"

text \<open>Copying a C string with its length and terminator into a field of a node.\<close>

definition copy_string :: "buffer \<Rightarrow> string \<Rightarrow> ('s, buffer) prog" where
  "copy_string b v = bnd (put b 0 v) (\<lambda>b. put b (strlen v) [NUL])"

definition fill_node ::
    "operation_name \<Rightarrow> string \<Rightarrow> string ptr \<Rightarrow> operation \<Rightarrow> ('s, operation) prog" where
  "fill_node name key value n =
     bnd (copy_string (op_key n) key) (\<lambda>k.
     let n = n\<lparr>op_name := name, key_size := strlen key, op_key := k\<rparr> in
     if value \<noteq> NULL then
       bnd (deref value) (\<lambda>v.
       bnd (copy_string (op_value n) v) (\<lambda>b.
       ret (n\<lparr>value_size := strlen v, op_value := b\<rparr>)))
     else ret (n\<lparr>value_size := 0\<rparr>))"

definition op_reqv_size :: "operation_name \<Rightarrow> int" where
  "op_reqv_size name = (case name of SET \<Rightarrow> UPDATE_REQV_SIZE | DEL \<Rightarrow> DELETE_REQV_SIZE)"

definition log_operation ::
    "operation_name \<Rightarrow> string \<Rightarrow> string ptr \<Rightarrow> (('h, 'd, 'e) log_st_scheme, int) prog" where
  "log_operation name key value =
     bnd (rd logger_op) (\<lambda>lp.
     if lp = NULL then sq (ereport_ERROR ''logger not exist'') (ret (-1))
     else
       bnd select_node (\<lambda>r.
       if r = -1 then ret (-1)
       else
         bnd the_logger (\<lambda>l.
         bnd (read_node (cur_op l)) (\<lambda>n.
         bnd (fill_node name key value n) (\<lambda>n.
         sq (write_node (cur_op l) n)
         (bnd get_cur_table_name (\<lambda>t.
          sq (set_logger (\<lambda>l. l\<lparr>sum_size_operation :=
                sum_size_operation l + (key_size n + value_size n) + strlen t + op_reqv_size name,
                count_operation := count_operation l + 1\<rparr>))
          (ret 0))))))))"

definition clear_log :: "(('h, 'd, 'e) log_st_scheme, int) prog" where
  "clear_log =
     bnd (rd logger_op) (\<lambda>lp.
     if lp = NULL then sq (ereport_ERROR ''logger not exist'') (ret (-1))
     else
       sq (set_logger (\<lambda>l. l\<lparr>sum_size_operation := 0, count_operation := 0, cur_op := first_op l\<rparr>))
       (ret 0))"

definition get_logger :: "(('h, 'd, 'e) log_st_scheme, logger ptr) prog" where
  "get_logger =
     bnd (rd logger_op) (\<lambda>lp.
     if lp = NULL then sq (ereport_ERROR ''logger not exist'') (ret NULL) else ret lp)"

text \<open>\<^verbatim>\<open>free_log\<close> walks the list and frees each node after reading its successor.\<close>

definition live_nodes :: "operation option list \<Rightarrow> nat" where
  "live_nodes ns = length (filter (\<lambda>n. n \<noteq> None) ns)"

lemma live_nodes_free:
  "a < length ns \<Longrightarrow> ns ! a \<noteq> None \<Longrightarrow> live_nodes (ns[a := None]) < live_nodes ns"
proof (induction ns arbitrary: a)
  case Nil
  then show ?case by simp
next
  case (Cons n ns)
  then show ?case by (cases a) (auto simp: live_nodes_def)
qed

function free_nodes :: "nat ptr \<Rightarrow> operation option list \<Rightarrow> operation option list outcome" where
  "free_nodes NULL ns = Ret ns"
| "free_nodes Dangling ns = Fault Use_After_Free"
| "free_nodes (Ptr a) ns =
     (if a < length ns
      then (case ns ! a of
              None \<Rightarrow> Fault Use_After_Free
            | Some n \<Rightarrow> free_nodes (next_op n) (ns[a := None]))
      else Fault Out_Of_Bounds)"
  by pat_completeness auto
termination
  by (relation "measure (\<lambda>(p, ns). live_nodes ns)") (auto intro: live_nodes_free)

definition free_log :: "(('h, 'd, 'e) log_st_scheme, unit) prog" where
  "free_log =
     bnd (rd logger_op) (\<lambda>lp.
     if lp = NULL then ret ()
     else
       bnd (deref lp) (\<lambda>l. bnd (rd op_nodes) (\<lambda>ns.
       (\<lambda>s. case free_nodes (first_op l) ns of
          Ret ns \<Rightarrow> (Ret (), s\<lparr>op_nodes := ns, logger_op := Dangling\<rparr>)
        | Exit e \<Rightarrow> (Exit e, s)
        | Fault u \<Rightarrow> (Fault u, s)))))"

section \<open>The log as a list of pending writes\<close>

definition node_holds :: "operation \<Rightarrow> cache_write \<Rightarrow> bool" where
  "node_holds n w \<longleftrightarrow>
     read_cstr (op_key n) = Some (fst w) \<and> key_size n = strlen (fst w) \<and> op_name n = write_op w \<and>
     (case snd w of
        None \<Rightarrow> value_size n = 0
      | Some v \<Rightarrow> read_cstr (op_value n) = Some v \<and> value_size n = strlen v)"

lemma node_holds_next [simp]: "node_holds (n\<lparr>next_op := p\<rparr>) w = node_holds n w"
  by (simp add: node_holds_def split: option.splits)

text \<open>The nodes form one list in address order; \<open>c\<close> of them are in use.\<close>

definition link_after :: "nat \<Rightarrow> nat \<Rightarrow> nat ptr" where
  "link_after i len = (if Suc i < len then Ptr (Suc i) else NULL)"

definition chain_ok :: "operation option list \<Rightarrow> bool" where
  "chain_ok ns \<longleftrightarrow>
     (\<forall>i < length ns. \<exists>n. ns ! i = Some n \<and> next_op n = link_after i (length ns) \<and>
        length (op_key n) = 100 \<and> length (op_value n) = 99)"

definition cursor_at :: "nat \<Rightarrow> nat \<Rightarrow> nat ptr" where
  "cursor_at c len = (if len = 0 then NULL else Ptr (c - 1))"

definition log_size :: "string \<Rightarrow> cache_write list \<Rightarrow> int" where
  "log_size t ws = (\<Sum>w\<leftarrow>ws. strlen (write_sql t w))"

text \<open>The log of the writes \<open>ws\<close>, to be sent to table \<open>t\<close>.\<close>

definition log_holds :: "string \<Rightarrow> ('h, 'd, 'e) log_st_scheme \<Rightarrow> cache_write list \<Rightarrow> bool" where
  "log_holds t s ws \<longleftrightarrow>
     (\<exists>l. logger_op s = Ptr l \<and> chain_ok (op_nodes s) \<and> length ws \<le> length (op_nodes s) \<and>
        first_op l = cursor_at 0 (length (op_nodes s)) \<and>
        cur_op l = cursor_at (length ws) (length (op_nodes s)) \<and>
        count_operation l = int (length ws) \<and> sum_size_operation l = log_size t ws \<and>
        (\<forall>i < length ws. \<exists>n. op_nodes s ! i = Some n \<and> node_holds n (ws ! i)))"

definition loggable :: "cache_write \<Rightarrow> bool" where
  "loggable w \<longleftrightarrow> NUL \<notin> set (fst w) \<and> int (length (fst w)) < 99 \<and>
     (case snd w of None \<Rightarrow> True | Some v \<Rightarrow> NUL \<notin> set v \<and> int (length v) < 98)"

lemma write_ok_loggable: "write_ok w \<Longrightarrow> loggable w"
  by (auto simp: write_ok_def loggable_def cache_key_def cache_value_def split: option.splits)

lemma strlen_write_sql:
  "strlen (write_sql t w) = op_reqv_size (write_op w) + param_size_of t w"
  by (auto simp: write_sql_def write_op_def op_reqv_size_def param_size_of_def sql_sizes
      split: option.splits)

lemma strlen_write_sql_pos: "0 < strlen (write_sql t w)"
  using strlen_nonneg [of t] strlen_nonneg [of "fst w"]
  by (auto simp: write_sql_def sql_sizes add_pos_nonneg split: option.splits)

lemma log_size_simps [simp]:
  "log_size t [] = 0" "log_size t (ws @ [w]) = log_size t ws + strlen (write_sql t w)"
  "log_size t (w # ws) = strlen (write_sql t w) + log_size t ws"
  by (simp_all add: log_size_def)

lemma log_size_nonneg [simp]: "0 \<le> log_size t ws"
  by (induction ws) auto

lemma log_size_eq_0 [simp]: "log_size t ws = 0 \<longleftrightarrow> ws = []"
proof (cases ws)
  case (Cons w us)
  have "0 < log_size t ws"
    using strlen_write_sql_pos [of t w] by (simp add: Cons add_pos_nonneg)
  then show ?thesis using Cons by simp
qed simp

text \<open>Filling a node.\<close>

lemma copy_string_spec:
  assumes "length v < length b" and "NUL \<notin> set v"
  shows "\<exists>b'. copy_string b v = ret b' \<and> length b' = length b \<and> read_cstr b' = Some v"
proof -
  let ?b = "cells v @ Some NUL # drop (Suc (length v)) b"
  have "copy_string b v = ret ?b"
    using assms(1) by (intro ext) (simp add: copy_string_def run strlen_def blit_def nat_add_distrib)
  moreover have "length ?b = length b" using assms(1) by (cases b) auto
  moreover have "read_cstr ?b = Some v" using assms(2) by simp
  ultimately show ?thesis by blast
qed

lemma fill_node_spec:
  assumes "loggable w" and "length (op_key n) = 100" and "length (op_value n) = 99"
    and "vp = (case snd w of None \<Rightarrow> NULL | Some v \<Rightarrow> Ptr v)"
  shows "\<exists>n'. fill_node (write_op w) (fst w) vp n = (ret n' :: ('s, operation) prog) \<and> node_holds n' w \<and>
    next_op n' = next_op n \<and> length (op_key n') = 100 \<and> length (op_value n') = 99 \<and>
    key_size n' + value_size n' + strlen t = param_size_of t w"
proof -
  obtain k where k: "copy_string (op_key n) (fst w) = (ret k :: ('s, buffer) prog)" "length k = 100"
      "read_cstr k = Some (fst w)"
    using copy_string_spec [of "fst w" "op_key n"] assms by (auto simp: loggable_def)
  show ?thesis
  proof (cases "snd w")
    case None
    then show ?thesis using k assms
      by (simp add: fill_node_def node_holds_def param_size_of_def write_op_def Let_def)
  next
    case (Some v)
    obtain b where "copy_string (op_value n) v = (ret b :: ('s, buffer) prog)" "length b = 99"
        "read_cstr b = Some v"
      using copy_string_spec [of v "op_value n"] assms Some by (auto simp: loggable_def)
    then show ?thesis using Some k assms
      by (simp add: fill_node_def node_holds_def param_size_of_def write_op_def Let_def deref_def)
  qed
qed

text \<open>Choosing the node: afterwards the chain is whole and the cursor stands at the node for the
  next write, which may be new or left over from before a flush.\<close>

lemma read_node_run: "a < length (op_nodes s) \<Longrightarrow> op_nodes s ! a = Some n \<Longrightarrow> read_node (Ptr a) s = (Ret n, s)"
  by (simp add: read_node_def run)

lemma write_node_run:
  "a < length (op_nodes s) \<Longrightarrow> op_nodes s ! a = Some n \<Longrightarrow>
   write_node (Ptr a) n' s = (Ret (), s\<lparr>op_nodes := (op_nodes s)[a := Some n']\<rparr>)"
  by (simp add: write_node_def read_node_def run)

text \<open>What choosing a node establishes, for the three situations it meets.\<close>

definition node_selected :: "string \<Rightarrow> cache_write list \<Rightarrow> operation option list \<Rightarrow> bool list \<Rightarrow>
    logger \<Rightarrow> operation option list \<Rightarrow> bool" where
  "node_selected t ws old ms l ns \<longleftrightarrow>
     no_refusal ms \<and> chain_ok ns \<and> length ws < length ns \<and> length old \<le> length ns \<and>
     first_op l = Ptr 0 \<and> cur_op l = Ptr (length ws) \<and>
     count_operation l = int (length ws) \<and> sum_size_operation l = log_size t ws \<and>
     (\<forall>i < length ws. \<exists>n. ns ! i = Some n \<and> node_holds n (ws ! i))"

lemma select_first_node:
  assumes "log_holds t s []" and "mallocs_ok s" and "op_nodes s = []"
  shows "\<exists>ms l ns. select_node s = (Ret 0, s\<lparr>mallocs := ms, logger_op := Ptr l, op_nodes := ns\<rparr>) \<and>
    node_selected t [] (op_nodes s) ms l ns"
proof -
  let ?n = "raw_node\<lparr>next_op := NULL\<rparr>"
  obtain l where l: "logger_op s = Ptr l" "cur_op l = NULL" "first_op l = NULL"
      "count_operation l = 0" "sum_size_operation l = 0"
    using assms(1,3) by (auto simp: log_holds_def cursor_at_def)
  let ?l = "l\<lparr>cur_op := Ptr 0, first_op := Ptr 0\<rparr>"
  have "select_node s = (Ret 0, s\<lparr>mallocs := tl (mallocs s), logger_op := Ptr ?l, op_nodes := [Some ?n]\<rparr>)"
    using assms(2,3) l
    by (simp add: select_node_def malloc_node_def the_logger_def set_logger_def read_node_def
        write_node_def run mallocs_ok_def)
  moreover have "node_selected t [] (op_nodes s) (tl (mallocs s)) ?l [Some ?n]"
    using assms(2,3) l
    by (auto simp: node_selected_def mallocs_ok_def chain_ok_def link_after_def raw_node_def)
  ultimately show ?thesis by blast
qed

lemma select_kept_node:
  assumes "log_holds t s ws" and "mallocs_ok s" and "length ws < length (op_nodes s)"
  shows "\<exists>ms l ns. select_node s = (Ret 0, s\<lparr>mallocs := ms, logger_op := Ptr l, op_nodes := ns\<rparr>) \<and>
    node_selected t ws (op_nodes s) ms l ns"
proof -
  let ?ns = "op_nodes s"
  have ne: "?ns \<noteq> []" using assms(3) by auto
  obtain l where l: "logger_op s = Ptr l" "chain_ok ?ns" "first_op l = Ptr 0"
      "cur_op l = Ptr (length ws - 1)" "count_operation l = int (length ws)"
      "sum_size_operation l = log_size t ws"
      "\<forall>i < length ws. \<exists>n. ?ns ! i = Some n \<and> node_holds n (ws ! i)"
    using assms(1) ne by (auto simp: log_holds_def cursor_at_def)
  let ?l = "l\<lparr>cur_op := Ptr (length ws)\<rparr>"
  have at: "length ws - 1 < length ?ns" using assms(3) by simp
  then obtain c where c: "?ns ! (length ws - 1) = Some c"
      "next_op c = link_after (length ws - 1) (length ?ns)"
    using l(2) by (auto simp: chain_ok_def)
  have "select_node s = (Ret 0, s\<lparr>mallocs := mallocs s, logger_op := Ptr ?l, op_nodes := ?ns\<rparr>)"
  proof (cases "ws = []")
    case True
    then have "cur_op l = Ptr 0" using l by simp
    then have "?l = l" using True by simp
    then show ?thesis
      using l c True at by (simp add: select_node_def the_logger_def read_node_def run)
  next
    case False
    then have "next_op c = Ptr (length ws)"
      using c(2) assms(3) by (simp add: link_after_def)
    then show ?thesis
      using l c(1) False at
      by (simp add: select_node_def the_logger_def set_logger_def read_node_def run)
  qed
  moreover have "node_selected t ws ?ns (mallocs s) ?l ?ns"
    using assms l by (simp add: node_selected_def mallocs_ok_def)
  ultimately show ?thesis by blast
qed

lemma select_new_node:
  assumes "log_holds t s ws" and "mallocs_ok s" and "length ws = length (op_nodes s)" and "ws \<noteq> []"
  shows "\<exists>ms l ns. select_node s = (Ret 0, s\<lparr>mallocs := ms, logger_op := Ptr l, op_nodes := ns\<rparr>) \<and>
    node_selected t ws (op_nodes s) ms l ns"
proof -
  let ?ns = "op_nodes s" and ?k = "length ws - 1"
  have ne: "?ns \<noteq> []" and k: "?k < length ?ns" using assms(3,4) by (cases ws; auto)+
  obtain l where l: "logger_op s = Ptr l" "chain_ok ?ns" "first_op l = Ptr 0"
      "cur_op l = Ptr ?k" "count_operation l = int (length ws)"
      "sum_size_operation l = log_size t ws"
      "\<forall>i < length ws. \<exists>n. ?ns ! i = Some n \<and> node_holds n (ws ! i)"
    using assms(1) ne by (auto simp: log_holds_def cursor_at_def)
  let ?l = "l\<lparr>cur_op := Ptr (length ws)\<rparr>"
  obtain c where c: "?ns ! ?k = Some c" "next_op c = NULL"
      "length (op_key c) = 100" "length (op_value c) = 99"
    using l(2) k assms(3,4) by (fastforce simp: chain_ok_def link_after_def)
  let ?new = "?ns[?k := Some (c\<lparr>next_op := Ptr (length ws)\<rparr>)] @ [Some (raw_node\<lparr>next_op := NULL\<rparr>)]"
  have "select_node s = (Ret 0, s\<lparr>mallocs := tl (mallocs s), logger_op := Ptr ?l, op_nodes := ?new\<rparr>)"
    using assms(2,3,4) l(1,4,6) c k
    by (simp add: select_node_def malloc_node_def the_logger_def set_logger_def read_node_def
        write_node_def run mallocs_ok_def nth_append list_update_append)
  moreover have "chain_ok ?new"
    unfolding chain_ok_def
  proof (intro allI impI)
    fix i assume "i < length ?new"
    then consider "i = length ws" | "i = ?k" | "i < ?k" using assms(3) by fastforce
    then show "\<exists>n. ?new ! i = Some n \<and> next_op n = link_after i (length ?new) \<and>
        length (op_key n) = 100 \<and> length (op_value n) = 99"
    proof cases
      case 1
      then show ?thesis using assms(3) by (simp add: nth_append link_after_def raw_node_def)
    next
      case 2
      then show ?thesis using assms(3,4) c k by (simp add: nth_append link_after_def)
    next
      case 3
      then have i: "i < length ?ns" "Suc i < length ?ns" using k by auto
      then obtain n where "?ns ! i = Some n" "next_op n = link_after i (length ?ns)"
          "length (op_key n) = 100" "length (op_value n) = 99"
        using l(2) unfolding chain_ok_def by blast
      then show ?thesis using 3 i by (simp add: nth_append link_after_def)
    qed
  qed
  moreover have "\<forall>i < length ws. \<exists>n. ?new ! i = Some n \<and> node_holds n (ws ! i)"
    using l(7) c k assms(3)
    by (auto simp: nth_append nth_list_update)
  ultimately have "node_selected t ws ?ns (tl (mallocs s)) ?l ?new"
    using assms l by (simp add: node_selected_def mallocs_ok_def)
  with \<open>select_node s = _\<close> show ?thesis by blast
qed

lemma select_node_spec:
  assumes "log_holds t s ws" and "mallocs_ok s"
  shows "\<exists>ms l ns. select_node s = (Ret 0, s\<lparr>mallocs := ms, logger_op := Ptr l, op_nodes := ns\<rparr>) \<and>
    node_selected t ws (op_nodes s) ms l ns"
proof -
  have "length ws \<le> length (op_nodes s)" using assms(1) by (auto simp: log_holds_def)
  then consider "op_nodes s = []" "ws = []" | "length ws < length (op_nodes s)"
    | "length ws = length (op_nodes s)" "ws \<noteq> []"
    by (cases "op_nodes s"; cases ws) (auto simp: le_less)
  then show ?thesis
  proof cases
    case 1
    then show ?thesis using select_first_node [of t s] assms by simp
  next
    case 2
    then show ?thesis by (rule select_kept_node [OF assms])
  next
    case 3
    then show ?thesis by (rule select_new_node [OF assms])
  qed
qed

lemma log_operation_spec:
  fixes s :: "('h, 'd, 'e) log_st_scheme"
  assumes "log_holds t s ws" and "mallocs_ok s" and "loggable w" and "status_ok t tn s"
    and vp: "vp = (case snd w of None \<Rightarrow> NULL | Some v \<Rightarrow> Ptr v)"
  shows "\<exists>ms l ns. log_operation (write_op w) (fst w) vp s =
      (Ret 0, s\<lparr>mallocs := ms, logger_op := Ptr l, op_nodes := ns\<rparr>) \<and> no_refusal ms \<and>
    log_holds t (s\<lparr>mallocs := ms, logger_op := Ptr l, op_nodes := ns\<rparr>) (ws @ [w])"
proof -
  obtain ms l ns where sel: "select_node s = (Ret 0, s\<lparr>mallocs := ms, logger_op := Ptr l, op_nodes := ns\<rparr>)"
      "node_selected t ws (op_nodes s) ms l ns"
    using select_node_spec [OF assms(1,2)] by blast
  let ?s = "s\<lparr>mallocs := ms, logger_op := Ptr l, op_nodes := ns\<rparr>"
  have at: "length ws < length ns" "chain_ok ns" and l: "cur_op l = Ptr (length ws)"
    using sel(2) by (auto simp: node_selected_def)
  then obtain n where n: "ns ! length ws = Some n" "next_op n = link_after (length ws) (length ns)"
      "length (op_key n) = 100" "length (op_value n) = 99"
    by (auto simp: chain_ok_def)
  obtain n' where n': "fill_node (write_op w) (fst w) vp n = (ret n' :: (('h, 'd, 'e) log_st_scheme, operation) prog)"
      "node_holds n' w"
      "next_op n' = next_op n" "length (op_key n') = 100" "length (op_value n') = 99"
      "key_size n' + value_size n' + strlen t = param_size_of t w"
    using fill_node_spec [OF assms(3) n(3,4) vp] by blast
  let ?l = "l\<lparr>sum_size_operation := sum_size_operation l + (key_size n' + value_size n') + strlen t +
        op_reqv_size (write_op w), count_operation := count_operation l + 1\<rparr>"
  let ?ns = "ns[length ws := Some n']"
  have st: "status_ok t tn (?s\<lparr>op_nodes := ?ns\<rparr>)" using assms(4) by (simp add: status_ok_def)
  obtain l0 where l0: "logger_op s = Ptr l0" using assms(1) by (auto simp: log_holds_def)
  have "log_operation (write_op w) (fst w) vp s =
      (Ret 0, s\<lparr>mallocs := ms, logger_op := Ptr ?l, op_nodes := ?ns\<rparr>)"
    using at l n(1) status_getters(1) [OF st]
    by (simp add: log_operation_def run l0 sel(1) n'(1) the_logger_def set_logger_def read_node_def
        write_node_def)
  moreover have "log_holds t (s\<lparr>mallocs := ms, logger_op := Ptr ?l, op_nodes := ?ns\<rparr>) (ws @ [w])"
    using sel(2) n n' at unfolding log_holds_def node_selected_def
    by (auto simp: chain_ok_def cursor_at_def strlen_write_sql nth_list_update nth_append less_Suc_eq)
  ultimately show ?thesis using sel(2) by (auto simp: node_selected_def)
qed

lemma clear_log_spec:
  assumes "log_holds t s ws"
  shows "\<exists>l. clear_log s = (Ret 0, s\<lparr>logger_op := Ptr l\<rparr>) \<and> log_holds t (s\<lparr>logger_op := Ptr l\<rparr>) []"
proof -
  obtain l where l: "logger_op s = Ptr l" using assms by (auto simp: log_holds_def)
  let ?l = "l\<lparr>sum_size_operation := 0, count_operation := 0, cur_op := first_op l\<rparr>"
  have "clear_log s = (Ret 0, s\<lparr>logger_op := Ptr ?l\<rparr>)"
    using l by (simp add: clear_log_def set_logger_def the_logger_def run)
  moreover have "log_holds t (s\<lparr>logger_op := Ptr ?l\<rparr>) []"
    using assms l by (simp add: log_holds_def cursor_at_def)
  ultimately show ?thesis by blast
qed

lemma init_logger_spec:
  assumes "mallocs_ok s" and "op_nodes s = []"
  shows "\<exists>l. init_logger s = (Ret 0, s\<lparr>mallocs := tl (mallocs s), logger_op := Ptr l\<rparr>) \<and>
    log_holds t (s\<lparr>mallocs := tl (mallocs s), logger_op := Ptr l\<rparr>) []"
  using assms
  by (intro exI [of _ "\<lparr>cur_op = NULL, first_op = NULL, sum_size_operation = 0, count_operation = 0\<rparr>"])
     (simp add: init_logger_def run log_holds_def cursor_at_def chain_ok_def)

text \<open>Every node is freed exactly once, and the walk ends.\<close>

lemma free_nodes_chain:
  "chain_ok ns \<Longrightarrow> k \<le> length ns \<Longrightarrow>
   free_nodes (if k < length ns then Ptr k else NULL) (replicate k None @ drop k ns) =
     Ret (replicate (length ns) None)"
proof (induction "length ns - k" arbitrary: k)
  case 0
  then show ?case by simp
next
  case (Suc m)
  then have k: "k < length ns" by simp
  then obtain n where n: "ns ! k = Some n" "next_op n = link_after k (length ns)"
    using Suc.prems(1) by (auto simp: chain_ok_def)
  have drop: "drop k ns = Some n # drop (Suc k) ns"
    using k n(1) by (metis Cons_nth_drop_Suc)
  have upd: "(replicate k None @ drop k ns)[k := None] = replicate (Suc k) None @ drop (Suc k) ns"
    by (simp add: drop list_update_append replicate_app_Cons_same)
  have "free_nodes (if Suc k < length ns then Ptr (Suc k) else NULL)
      (replicate (Suc k) None @ drop (Suc k) ns) = Ret (replicate (length ns) None)"
    using Suc k by (intro Suc.hyps) auto
  then show ?case
    using k n upd by (simp add: nth_append link_after_def)
qed

section \<open>The interface of the log\<close>

definition value_ptr :: "cache_write \<Rightarrow> string ptr" where
  "value_ptr w = (case snd w of None \<Rightarrow> NULL | Some v \<Rightarrow> Ptr v)"

definition log_write :: "cache_write \<Rightarrow> (('h, 'd, 'e) log_st_scheme, int) prog" where
  "log_write w = log_operation (write_op w) (fst w) (value_ptr w)"

fun push_all :: "(cache_write \<Rightarrow> ('s, int) prog) \<Rightarrow> cache_write list \<Rightarrow> ('s, unit) prog" where
  "push_all push [] = ret ()"
| "push_all push (w # ws) = bnd (push w) (\<lambda>_. push_all push ws)"

locale write_log =
  fixes push :: "cache_write \<Rightarrow> ('s, int) prog"
    and clear :: "('s, int) prog"
    and pending :: "'s \<Rightarrow> cache_write list \<Rightarrow> bool"
    and ready :: "'s \<Rightarrow> bool"
  assumes push_spec: "pending s ws \<Longrightarrow> ready s \<Longrightarrow> loggable w \<Longrightarrow>
      \<exists>s'. push w s = (Ret 0, s') \<and> pending s' (ws @ [w]) \<and> ready s'"
    and clear_spec: "pending s ws \<Longrightarrow> ready s \<Longrightarrow>
      \<exists>s'. clear s = (Ret 0, s') \<and> pending s' [] \<and> ready s'"
begin

lemma push_all_pending:
  "pending s us \<Longrightarrow> ready s \<Longrightarrow> \<forall>w \<in> set ws. loggable w \<Longrightarrow>
   \<exists>s'. push_all push ws s = (Ret (), s') \<and> pending s' (us @ ws) \<and> ready s'"
proof (induction ws arbitrary: s us)
  case Nil
  then show ?case by (simp add: run)
next
  case (Cons w ws)
  obtain s1 where "push w s = (Ret 0, s1)" "pending s1 (us @ [w])" "ready s1"
    using push_spec Cons.prems by fastforce
  then show ?case using Cons.IH [of s1 "us @ [w]"] Cons.prems(3) by (simp add: run)
qed

text \<open>After a flush the log holds exactly what is pushed from then on.\<close>

lemma clear_push_all:
  assumes "pending s us" and "ready s" and "\<forall>w \<in> set ws. loggable w"
  shows "\<exists>s'. bnd clear (\<lambda>_. push_all push ws) s = (Ret (), s') \<and> pending s' ws \<and> ready s'"
proof -
  obtain s1 where "clear s = (Ret 0, s1)" "pending s1 []" "ready s1"
    using clear_spec assms by blast
  then show ?thesis using push_all_pending [of s1 "[]" ws] assms(3) by (simp add: run)
qed

end

interpretation op_log: write_log log_write clear_log "log_holds t" "\<lambda>s. mallocs_ok s \<and> status_ok t tn s"
  for t :: string and tn :: int
proof (unfold_locales, goal_cases)
  case (1 s ws w)
  then obtain ms l ns where
      "log_write w s = (Ret 0, s\<lparr>mallocs := ms, logger_op := Ptr l, op_nodes := ns\<rparr>)" "no_refusal ms"
      "log_holds t (s\<lparr>mallocs := ms, logger_op := Ptr l, op_nodes := ns\<rparr>) (ws @ [w])"
    using log_operation_spec [of t s ws w tn "value_ptr w"] by (auto simp: log_write_def value_ptr_def)
  then show ?case using 1 by (auto simp: mallocs_ok_def status_ok_def)
next
  case (2 s ws)
  then obtain l where "clear_log s = (Ret 0, s\<lparr>logger_op := Ptr l\<rparr>)"
      "log_holds t (s\<lparr>logger_op := Ptr l\<rparr>) []"
    using clear_log_spec by blast
  then show ?case using 2 by (auto simp: mallocs_ok_def status_ok_def)
qed

end
