(* ===== verification/Send_Req_Postgres.thy ===== *)
theory Send_Req_Postgres
  imports Logger
begin

text \<open>
  \<^verbatim>\<open>send_req_postgres/send_req_postgres.c\<close> and the end of \<^verbatim>\<open>add_log\<close>: a request goes to the cache, to
  the database or to both, by the caching regime, and \<^verbatim>\<open>sync_with_db\<close> sends the log to the database
  as one transaction.  The abstract specification is a map from keys to values (\<open>regime_view\<close>); the
  locale \<open>kv_service\<close> states what a client may rely on, and it is interpreted on these functions for
  every caching regime at once.
\<close>

section \<open>Synchronisation\<close>

text \<open>The loop of \<^verbatim>\<open>sync_with_db\<close> over \<open>n\<close> operations, from node \<open>cur\<close> on.\<close>

fun sync_ops :: "nat \<Rightarrow> nat ptr \<Rightarrow> string \<Rightarrow> (('h, 'd, 'e) log_st_scheme, int) prog" where
  "sync_ops 0 cur table_name = ret 0"
| "sync_ops (Suc n) cur table_name =
     bnd (read_node cur) (\<lambda>node.
     let param_size = to_int (value_size node + key_size node + strlen table_name) in
     case read_cstr (op_key node) of
       None \<Rightarrow> flt Uninitialised
     | Some key \<Rightarrow>
         bnd (if op_name node = SET
              then (case read_cstr (op_value node) of None \<Rightarrow> flt Uninitialised | Some v \<Rightarrow> ret (Ptr v))
              else ret NULL) (\<lambda>value.
         bnd (add_op_in_transaction (op_name node) param_size key value table_name) (\<lambda>r.
         if r = -1 then ret (-1) else sync_ops n (next_op node) table_name)))"

definition sync_with_db :: "'d libpq \<Rightarrow> (('h, 'd, 'e) log_st_scheme, int) prog" where
  "sync_with_db P =
     bnd get_cur_table_name (\<lambda>table_name.
     bnd get_logger (\<lambda>lp.
     if lp = NULL then ret (-1)
     else
       bnd (deref lp) (\<lambda>l.
       if first_op l = NULL \<or> sum_size_operation l = 0 then ret 0
       else
         bnd (init_transaction (sum_size_operation l)) (\<lambda>r.
         if r = -1 then ret (-1)
         else
           bnd (sync_ops (nat (count_operation l)) (first_op l) table_name) (\<lambda>r.
           if r = -1 then ret (-1)
           else
             bnd (do_transaction P) (\<lambda>r.
             if r = ERR_REQ then ret (-1)
             else
               sq free_transaction
               (bnd clear_log (\<lambda>r. if r = -1 then ret (-1) else ret 0))))))))"

text \<open>\<^verbatim>\<open>add_log\<close>: log the operation, and synchronise when the log is full.\<close>

definition add_log ::
    "'d libpq \<Rightarrow> operation_name \<Rightarrow> string \<Rightarrow> string ptr \<Rightarrow> (('h, 'd, 'e) log_st_scheme, int) prog" where
  "add_log P name key value =
     bnd (log_operation name key value) (\<lambda>r.
     if r = -1 then ret (-1)
     else
       bnd the_logger (\<lambda>l.
       if count_operation l = MAX_COUNT_OPERATION
       then bnd (sync_with_db P) (\<lambda>r. if r = -1 then ret (-1) else ret 0)
       else ret 0))"

section \<open>The requests\<close>

definition req_get :: "'h dynahash \<Rightarrow> 'd libpq \<Rightarrow> string \<Rightarrow> string ptr \<times> int \<Rightarrow>
    (('h, 'd, 'e) log_st_scheme, req_result \<times> string ptr \<times> int) prog" where
  "req_get D P key out =
     (let fit_in_cache = (strlen key + 1 < KEY_SIZE) in
      bnd get_caching_status (\<lambda>st.
      if (st = GET_CACHE \<or> st = ONLY_CACHE \<or> st = DEFFER_DUMP) \<and> fit_in_cache then
        bnd get_cur_table_num (\<lambda>table_num.
        bnd (check_hash_table D table_num key) (\<lambda>(value, found).
        if value \<noteq> NULL then
          bnd (deref value) (\<lambda>b.
          case read_cstr b of
            None \<Rightarrow> flt Uninitialised
          | Some v \<Rightarrow> ret (OK, Ptr v, strlen v + 1))
        else if found then ret (NON, NULL, snd out)
        else
          bnd get_cur_table_name (\<lambda>t.
          bnd (get_value P t key (NULL, snd out)) (\<lambda>(r, value, length).
          case r of
            NON \<Rightarrow>
              bnd (set_hash_table D table_num (Ptr key) value (CHR 0x01)) (\<lambda>e.
              if e = -1 then ret (ERR_REQ, value, length) else ret (r, value, length))
          | OK \<Rightarrow>
              bnd (deref value) (\<lambda>v.
              if strlen v + 1 < VALUE_SIZE then
                bnd (set_hash_table D table_num (Ptr key) value (CHR 0x00)) (\<lambda>e.
                if e = -1 then ret (ERR_REQ, value, length) else ret (r, value, length))
              else ret (r, value, length))
          | ERR_REQ \<Rightarrow> ret (r, value, length)))))
      else if st = NO_CACHE \<or> \<not> fit_in_cache then
        bnd get_cur_table_name (\<lambda>t. get_value P t key out)
      else sq (ereport_ERROR ''undefined caching status'') (ret (ERR_REQ, out))))"

definition req_set :: "'h dynahash \<Rightarrow> 'd libpq \<Rightarrow> string \<Rightarrow> string \<Rightarrow>
    (('h, 'd, 'e) log_st_scheme, req_result) prog" where
  "req_set D P key value =
     (let fit_in_cache = (strlen key + 1 < KEY_SIZE \<and> strlen value + 1 < VALUE_SIZE) in
      bnd get_caching_status (\<lambda>st.
      if st = GET_CACHE \<and> fit_in_cache then
        bnd get_cur_table_num (\<lambda>table_num.
        bnd get_cur_table_name (\<lambda>t.
        bnd (set_value P t key value) (\<lambda>r.
        if r \<noteq> ERR_REQ then
          bnd (set_hash_table D table_num (Ptr key) (Ptr value) (CHR 0x00)) (\<lambda>e.
          if e = -1 then ret ERR_REQ else ret r)
        else ret r)))
      else if (st = ONLY_CACHE \<or> st = DEFFER_DUMP) \<and> fit_in_cache then
        bnd get_cur_table_num (\<lambda>table_num.
        bnd (set_hash_table D table_num (Ptr key) (Ptr value) (CHR 0x00)) (\<lambda>e.
        if e = -1 then ret ERR_REQ
        else if st = DEFFER_DUMP then
          bnd (add_log P SET key (Ptr value)) (\<lambda>e. if e = -1 then ret ERR_REQ else ret OK)
        else ret OK))
      else if st = NO_CACHE \<or> \<not> fit_in_cache then
        bnd get_cur_table_name (\<lambda>t. set_value P t key value)
      else sq (ereport_ERROR ''undefined caching status'') (ret ERR_REQ)))"

definition req_del :: "'h dynahash \<Rightarrow> 'd libpq \<Rightarrow> string \<Rightarrow> (('h, 'd, 'e) log_st_scheme, req_result) prog" where
  "req_del D P key =
     (let fit_in_cache = (strlen key + 1 < KEY_SIZE) in
      bnd get_caching_status (\<lambda>st.
      if st = GET_CACHE \<and> fit_in_cache then
        bnd get_cur_table_num (\<lambda>table_num.
        bnd get_cur_table_name (\<lambda>t.
        bnd (del_value P t key) (\<lambda>r.
        if r \<noteq> ERR_REQ then
          bnd (set_hash_table D table_num (Ptr key) NULL (CHR 0x01)) (\<lambda>e.
          if e = -1 then ret ERR_REQ else ret r)
        else ret r)))
      else if (st = ONLY_CACHE \<or> st = DEFFER_DUMP) \<and> fit_in_cache then
        bnd get_cur_table_num (\<lambda>table_num.
        bnd (check_hash_table D table_num key) (\<lambda>(result, found).
        bnd (if result \<noteq> NULL \<and> found then ret OK
             else if result = NULL \<and> found then ret NON
             else bnd get_cur_table_name (\<lambda>t. del_value P t key)) (\<lambda>r.
        bnd (set_hash_table D table_num (Ptr key) NULL (CHR 0x01)) (\<lambda>e.
        if e = -1 then ret ERR_REQ
        else if st = DEFFER_DUMP then
          bnd (add_log P DEL key NULL) (\<lambda>e. if e = -1 then ret ERR_REQ else ret r)
        else ret r))))
      else if st = NO_CACHE \<or> \<not> fit_in_cache then
        bnd get_cur_table_name (\<lambda>t. del_value P t key)
      else sq (ereport_ERROR ''undefined caching status'') (ret ERR_REQ)))"

section \<open>A synchronisation sends the whole log, in order, and empties it\<close>

text \<open>The nodes from address \<open>i\<close> on hold the writes \<open>us\<close>.\<close>

definition nodes_from :: "operation option list \<Rightarrow> nat \<Rightarrow> cache_write list \<Rightarrow> bool" where
  "nodes_from ns i us \<longleftrightarrow> i + length us \<le> length ns \<and>
     (\<forall>j < length us. \<exists>n. ns ! (i + j) = Some n \<and> node_holds n (us ! j) \<and>
        next_op n = link_after (i + j) (length ns))"

lemma nodes_from_Cons:
  "nodes_from ns i (w # us) \<Longrightarrow>
   (\<exists>n. i < length ns \<and> ns ! i = Some n \<and> node_holds n w \<and> next_op n = link_after i (length ns)) \<and>
   nodes_from ns (Suc i) us"
  unfolding nodes_from_def
proof (elim conjE, intro conjI, goal_cases)
  case 1
  from 1(2) [rule_format, of 0] 1(1) show ?case by simp
next
  case 3
  show ?case
  proof (intro allI impI)
    fix j assume "j < length us"
    with 3(2) [rule_format, of "Suc j"] 3(1)
    show "\<exists>n. ns ! (Suc i + j) = Some n \<and> node_holds n (us ! j) \<and> next_op n = link_after (Suc i + j) (length ns)"
      by simp
  qed
qed simp

lemma log_holds_nodes: "log_holds t s ws \<Longrightarrow> nodes_from (op_nodes s) 0 ws"
  unfolding log_holds_def chain_ok_def nodes_from_def
  by (elim exE conjE, intro conjI allI impI) (simp, metis add_0 dual_order.strict_trans1 option.inject)

lemma tx_frame_log [simp]:
  "op_nodes (tx_frame s ms b pos n) = op_nodes s" "logger_op (tx_frame s ms b pos n) = logger_op s"
  by (simp_all add: tx_frame_def)

definition writes_sql :: "string \<Rightarrow> cache_write list \<Rightarrow> string" where
  "writes_sql t ws = concat (map (write_sql t) ws)"

lemma writes_sql_simps [simp]:
  "writes_sql t [] = []" "writes_sql t (w # ws) = write_sql t w @ writes_sql t ws"
  by (simp_all add: writes_sql_def)

lemma length_writes_sql: "int (length (writes_sql t ws)) = log_size t ws"
  by (induction ws) (simp_all add: strlen_def)

lemma node_params:
  assumes "node_holds n w" and "strlen (write_sql t w) < 2 ^ 31"
  shows "to_int (value_size n + key_size n + strlen t) = param_size_of t w"
    and "op_name n = write_op w" and "read_cstr (op_key n) = Some (fst w)"
    and "\<And>v. snd w = Some v \<Longrightarrow> read_cstr (op_value n) = Some v"
proof -
  have sum: "value_size n + key_size n + strlen t = param_size_of t w"
    using assms(1) by (auto simp: node_holds_def param_size_of_def split: option.splits)
  have "0 \<le> param_size_of t w" by (simp add: param_size_of_def add_nonneg_nonneg split: option.splits)
  moreover have "param_size_of t w \<le> strlen (write_sql t w)"
    by (simp add: strlen_write_sql op_reqv_size_def split: operation_name.splits)
  ultimately show "to_int (value_size n + key_size n + strlen t) = param_size_of t w"
    using assms(2) unfolding sum by (intro to_int_id) (simp add: int_range_def)
qed (use assms(1) in \<open>auto simp: node_holds_def\<close>)

lemma sync_step:
  assumes "read_node p s = (Ret n, s)" and "node_holds n w" and "strlen (write_sql t w) < 2 ^ 31"
  shows "\<exists>vp. (\<forall>v. snd w = Some v \<longrightarrow> vp = Ptr v) \<and>
    sync_ops (Suc c) p t s =
      bnd (add_op_in_transaction (write_op w) (param_size_of t w) (fst w) vp t)
          (\<lambda>r. if r = -1 then ret (-1) else sync_ops c (next_op n) t) s"
proof (cases "snd w")
  case None
  then show ?thesis
    using assms node_params [OF assms(2,3)]
    by (intro exI [of _ NULL]) (simp add: bnd_run [of "read_node p"] write_op_def Let_def)
next
  case (Some v)
  then show ?thesis
    using assms node_params [OF assms(2,3)]
    by (intro exI [of _ "Ptr v"]) (simp add: bnd_run [of "read_node p"] write_op_def Let_def)
qed

lemma sync_ops_spec:
  assumes "nodes_from (op_nodes s) i us" and "tx_holds pre n s" and "mallocs_ok s"
    and "length pre + length (writes_sql t us) \<le> n" and "int n < 2 ^ 31"
  shows "\<exists>ms tb. let s' = tx_frame s ms tb (int (length (pre @ writes_sql t us))) (int n) in
    sync_ops (length us) (if i < length (op_nodes s) then Ptr i else NULL) t s = (Ret 0, s') \<and>
    no_refusal ms \<and> tx_holds (pre @ writes_sql t us) n s'"
  using assms
proof (induction us arbitrary: s i pre)
  case Nil
  then show ?case
    by (intro exI [of _ "mallocs s"] exI [of _ "transaction s"])
       (simp add: run tx_holds_def mallocs_ok_def tx_frame_def)
next
  case (Cons w us)
  obtain nd where nd: "i < length (op_nodes s)" "op_nodes s ! i = Some nd" "node_holds nd w"
      "next_op nd = link_after i (length (op_nodes s))" and rest: "nodes_from (op_nodes s) (Suc i) us"
    using nodes_from_Cons [OF Cons.prems(1)] by blast
  have len: "length pre + length (write_sql t w) \<le> n" "strlen (write_sql t w) < 2 ^ 31"
    using Cons.prems(4,5) by (simp_all add: strlen_def)
  obtain vp where vp: "\<And>v. snd w = Some v \<Longrightarrow> vp = Ptr v" and
    step: "sync_ops (Suc (length us)) (Ptr i) t s =
      bnd (add_op_in_transaction (write_op w) (param_size_of t w) (fst w) vp t)
          (\<lambda>r. if r = -1 then ret (-1) else sync_ops (length us) (next_op nd) t) s"
    using sync_step [OF read_node_run [OF nd(1,2)] nd(3) len(2)] by blast
  let ?s1 = "\<lambda>tb. tx_frame s (tl (mallocs s)) tb (int (length (pre @ write_sql t w))) (int n)"
  obtain tb where tb: "add_op_in_transaction (write_op w) (param_size_of t w) (fst w) vp t s = (Ret 0, ?s1 tb)"
      "tx_holds (pre @ write_sql t w) n (?s1 tb)"
    using add_op_in_transaction_spec [OF Cons.prems(2) len(1) Cons.prems(5,3) vp] by blast
  have ok: "mallocs_ok (?s1 tb)" using Cons.prems(3) by (simp add: mallocs_ok_def)
  have "nodes_from (op_nodes (?s1 tb)) (Suc i) us"
    "length (pre @ write_sql t w) + length (writes_sql t us) \<le> n"
    using rest Cons.prems(4) by simp_all
  from Cons.IH [OF this(1) tb(2) ok this(2) Cons.prems(5)] obtain ms tb2 where
    "sync_ops (length us) (next_op nd) t (?s1 tb) =
       (Ret 0, tx_frame s ms tb2 (int (length (pre @ writes_sql t (w # us)))) (int n))" "no_refusal ms"
    "tx_holds (pre @ writes_sql t (w # us)) n
       (tx_frame s ms tb2 (int (length (pre @ writes_sql t (w # us)))) (int n))"
    using nd(4) by (auto simp: Let_def link_after_def)
  then show ?case
    using nd(1) step tb(1)
    by (intro exI [of _ ms] exI [of _ tb2]) (simp add: Let_def bnd_run del: sync_ops.simps)
qed

text \<open>What every operation of this module leaves alone.\<close>

definition kept :: "('h, 'd, 'e) log_st_scheme \<Rightarrow> ('h, 'd, 'e) log_st_scheme \<Rightarrow> bool" where
  "kept s s' \<longleftrightarrow> config s' = config s \<and> proxy_configure s' = proxy_configure s \<and>
     log_st.more s' = log_st.more s"

lemma kept_refl [simp]: "kept s s"
  by (simp add: kept_def)

lemma kept_trans: "kept s s' \<Longrightarrow> kept s' s'' \<Longrightarrow> kept s s''"
  by (simp add: kept_def)

lemma NUL_notin_writes_sql:
  "\<forall>w \<in> set ws. safe_write w \<Longrightarrow> NUL \<notin> set t \<Longrightarrow> NUL \<notin> set (writes_sql t ws)"
  by (induction ws)
     (auto simp: write_sql_def sql_update_def sql_delete_def safe_write_def sql_safe_def
       split: option.splits)

lemma sync_run:
  assumes log: "log_holds t s ws" and ne: "ws \<noteq> []" and st: "status_ok t tn s" and db: "db_ok hv t s m"
    and size: "log_size t ws < 2 ^ 31 - 14" and t: "NUL \<notin> set t" and safe: "\<forall>w \<in> set ws. safe_write w"
    and P: "hstore_laws P hv"
  shows "\<exists>ms b pos n r d. let s1 = (tx_frame s ms b pos n)\<lparr>res := r, server := d\<rparr> in
    sync_with_db P s = sq free_transaction (bnd clear_log (\<lambda>r. if r = -1 then ret (-1) else ret 0)) s1 \<and>
    no_refusal ms \<and> b \<noteq> Dangling \<and> hv d = (hv (server s))(t \<mapsto> fold apply_write ws m)"
proof -
  define N where "N = length (writes_sql t ws) + 14"
  have N: "int N = log_size t ws + 14" "int N < 2 ^ 31" "nat (log_size t ws) + 14 = N"
    using size by (simp_all add: N_def flip: length_writes_sql)
  obtain l where l: "logger_op s = Ptr l" "count_operation l = int (length ws)"
      "sum_size_operation l = log_size t ws" "first_op l = Ptr 0" "0 < length (op_nodes s)"
    using log ne by (cases "op_nodes s") (auto simp: log_holds_def cursor_at_def)
  have ok: "mallocs_ok s" "connected s" "conn s = Ptr ()" "hv (server s) t = Some m"
    using db by (simp_all add: db_ok_def)
  have "log_size t ws < 2 ^ 62" using size by simp
  then obtain tb where init: "init_transaction (log_size t ws) s = (Ret 0, tx_frame s (tl (mallocs s)) tb 6 (int N))"
      and tx: "tx_holds ''BEGIN;'' N (tx_frame s (tl (mallocs s)) tb 6 (int N))"
    using init_transaction_spec [OF ok(1) log_size_nonneg] N by metis
  let ?s0 = "tx_frame s (tl (mallocs s)) tb 6 (int N)"
  have "nodes_from (op_nodes ?s0) 0 ws" "mallocs_ok ?s0"
      "length ''BEGIN;'' + length (writes_sql t ws) \<le> N"
    using log_holds_nodes [OF log] ok(1) by (simp_all add: mallocs_ok_def N_def)
  from sync_ops_spec [OF this(1) tx this(2,3) N(2)] l(5) obtain ms tb2 where
    loop: "sync_ops (length ws) (Ptr 0) t ?s0 =
        (Ret 0, tx_frame s ms tb2 (int (length (''BEGIN;'' @ writes_sql t ws))) (int N))" and
    ms: "no_refusal ms" and
    tx2: "tx_holds (''BEGIN;'' @ writes_sql t ws) N
        (tx_frame s ms tb2 (int (length (''BEGIN;'' @ writes_sql t ws))) (int N))"
    by (auto simp: Let_def)
  define s1 where "s1 = tx_frame s ms tb2 (int (length (''BEGIN;'' @ writes_sql t ws))) (int N)"
  obtain rows d where d: "pq_exec P (server s) (transaction_sql t ws) =
       (\<lparr>res_status = PGRES_COMMAND_OK, res_rows = rows\<rparr>, d)"
      "hv d = (hv (server s))(t \<mapsto> fold apply_write ws m)"
    using hstore_transaction [OF P ok(4) safe] by blast
  let ?b = "Ptr (cells ((''BEGIN;'' @ writes_sql t ws) @ ''COMMIT;'') @ [Some NUL])"
  have fin: "do_transaction P s1 = (Ret OK, s1\<lparr>transaction := ?b,
      res := Ptr \<lparr>res_status = PGRES_COMMAND_OK, res_rows = rows\<rparr>, server := d\<rparr>)"
  proof (rule do_transaction_spec)
    show "tx_holds (''BEGIN;'' @ writes_sql t ws) N s1" using tx2 by (simp add: s1_def)
    show "N = length (''BEGIN;'' @ writes_sql t ws) + 8" by (simp add: N_def)
    show "NUL \<notin> set (''BEGIN;'' @ writes_sql t ws)" using NUL_notin_writes_sql [OF safe t] by simp
    show "pq_exec P (server s1) ((''BEGIN;'' @ writes_sql t ws) @ ''COMMIT;'') =
        (\<lparr>res_status = PGRES_COMMAND_OK, res_rows = rows\<rparr>, d)"
      using d(1) by (simp add: s1_def transaction_sql_def writes_sql_def)
  qed (use ok in \<open>simp_all add: s1_def\<close>)
  have lg: "get_logger s = (Ret (Ptr l), s)" using l(1) by (simp add: get_logger_def run)
  have "sync_with_db P s = sq free_transaction (bnd clear_log (\<lambda>r. if r = -1 then ret (-1) else ret 0))
      (s1\<lparr>transaction := ?b, res := Ptr \<lparr>res_status = PGRES_COMMAND_OK, res_rows = rows\<rparr>, server := d\<rparr>)"
    using ne l init loop [folded s1_def]
    by (simp add: sync_with_db_def bnd_Ret [of get_cur_table_name, OF status_getters(1) [OF st]]
        bnd_Ret [of get_logger, OF lg] deref_def
        bnd_Ret [of "init_transaction _", OF init] bnd_Ret [of "sync_ops _ _ _", OF loop [folded s1_def]]
        bnd_Ret [of "do_transaction P", OF fin])
  moreover have "s1\<lparr>transaction := ?b, res := r, server := d\<rparr> =
      (tx_frame s ms ?b (cur_position s1) (int N))\<lparr>res := r, server := d\<rparr>" for r
    by (simp add: s1_def tx_frame_def)
  ultimately show ?thesis
    using ms d(2) unfolding Let_def by (metis ptr.distinct(5))
qed

text \<open>The specification of a synchronisation: whatever the log holds, the database afterwards is the
  one before with those writes applied in order, and the log is empty.\<close>

lemma sync_with_db_spec:
  assumes log: "log_holds t s ws" and st: "status_ok t tn s" and db: "db_ok hv t s m"
    and size: "log_size t ws < 2 ^ 31 - 14" and t: "NUL \<notin> set t" and safe: "\<forall>w \<in> set ws. safe_write w"
    and P: "hstore_laws P hv"
  shows "\<exists>s'. sync_with_db P s = (Ret 0, s') \<and> kept s s' \<and> hashes s' = hashes s \<and> log_holds t s' [] \<and>
    db_ok hv t s' (fold apply_write ws m) \<and>
    hv (server s') = (hv (server s))(t \<mapsto> fold apply_write ws m) \<and>
    (transaction s = NULL \<longrightarrow> transaction s' = NULL)"
proof (cases "ws = []")
  case True
  obtain l where l: "logger_op s = Ptr l" "sum_size_operation l = 0"
    using log True by (auto simp: log_holds_def)
  have "sync_with_db P s = (Ret 0, s)"
    using l status_getters(1) [OF st] by (simp add: sync_with_db_def get_logger_def run)
  moreover have "(hv (server s))(t \<mapsto> m) = hv (server s)"
    using db by (auto simp: db_ok_def)
  ultimately show ?thesis using True log db by auto
next
  case False
  obtain ms b pos n r d where go:
    "sync_with_db P s = sq free_transaction (bnd clear_log (\<lambda>r. if r = -1 then ret (-1) else ret 0))
       ((tx_frame s ms b pos n)\<lparr>res := r, server := d\<rparr>)" and
    ms: "no_refusal ms" and b: "b \<noteq> Dangling" and d: "hv d = (hv (server s))(t \<mapsto> fold apply_write ws m)"
    using sync_run [OF log False st db size t safe P] unfolding Let_def by blast
  let ?s2 = "(tx_frame s ms NULL 0 n)\<lparr>res := r, server := d\<rparr>"
  have free: "free_transaction ((tx_frame s ms b pos n)\<lparr>res := r, server := d\<rparr>) = (Ret (), ?s2)"
    using b by (simp add: free_transaction_def run tx_frame_def)
  have "log_holds t ?s2 ws" using log by (simp add: log_holds_def)
  from clear_log_spec [OF this] obtain l where
    l: "clear_log ?s2 = (Ret 0, ?s2\<lparr>logger_op := Ptr l\<rparr>)" "log_holds t (?s2\<lparr>logger_op := Ptr l\<rparr>) []"
    by blast
  have "sync_with_db P s = (Ret 0, ?s2\<lparr>logger_op := Ptr l\<rparr>)"
    using go free l(1) by (simp add: sq_run bnd_run ret_run)
  moreover have "kept s (?s2\<lparr>logger_op := Ptr l\<rparr>)"
    by (simp add: kept_def tx_frame_def)
  moreover have "db_ok hv t (?s2\<lparr>logger_op := Ptr l\<rparr>) (fold apply_write ws m)"
    using db d ms by (simp add: db_ok_def mallocs_ok_def)
  ultimately show ?thesis
    using l(2) d by (intro exI [of _ "?s2\<lparr>logger_op := Ptr l\<rparr>"]) simp
qed

section \<open>The specification: one map\<close>

text \<open>What a client sees: the cache in front of the database, for keys that can be cached.\<close>

definition overlay :: "(string \<Rightarrow> cached option) \<Rightarrow> (string \<rightharpoonup> string) \<Rightarrow> string \<rightharpoonup> string" where
  "overlay c m k =
     (if cache_key k
      then (case c k of None \<Rightarrow> m k | Some Gone \<Rightarrow> None | Some (Present v) \<Rightarrow> Some v) else m k)"

definition regime_view ::
    "dump_status \<Rightarrow> (string \<Rightarrow> cached option) \<Rightarrow> (string \<rightharpoonup> string) \<Rightarrow> string \<rightharpoonup> string" where
  "regime_view R c m = (if R = NO_CACHE then m else overlay c m)"

lemma overlay_write:
  assumes "cache_key k" and "\<And>k'. k' \<noteq> k \<Longrightarrow> m' k' = m k'"
    and "\<And>k'. cache_key k' \<Longrightarrow> c' k' = (if k' = k then Some (written w) else c k')"
  shows "overlay c' m' = (overlay c m)(k := w)"
  using assms by (auto simp: fun_eq_iff overlay_def written_def split: option.splits)

lemma overlay_db_write: "\<not> cache_key k \<Longrightarrow> overlay c (m(k := w)) = (overlay c m)(k := w)"
  by (auto simp: fun_eq_iff overlay_def split: option.splits cached.splits)

lemma overlay_idem [simp]: "overlay c (overlay c m) = overlay c m"
  by (auto simp: fun_eq_iff overlay_def split: option.splits cached.splits)

lemma apply_write_upd:
  "apply_write w (m(k := x)) = (if fst w = k then apply_write w m else (apply_write w m)(k := x))"
  by (auto simp: apply_write_def fun_eq_iff)

lemma fold_apply_write_upd:
  "(fold apply_write ws (m(k := x))) (k := y) = (fold apply_write ws m)(k := y)"
  by (induction ws arbitrary: m) (simp_all add: apply_write_upd)

lemma fold_apply_write_other:
  "k \<notin> fst ` set ws \<Longrightarrow> fold apply_write ws (m(k := x)) = (fold apply_write ws m)(k := x)"
  by (induction ws arbitrary: m) (auto simp: apply_write_upd)

text \<open>The log of the deferred regime: shorter than a forced synchronisation, and applying it to the
  database gives what the client sees.\<close>

definition log_covers :: "string \<Rightarrow> ('h, 'd, 'e) log_st_scheme \<Rightarrow> (string \<rightharpoonup> string) \<Rightarrow>
    (string \<rightharpoonup> string) \<Rightarrow> bool" where
  "log_covers t s m u \<longleftrightarrow>
     (\<exists>ws. log_holds t s ws \<and> int (length ws) < MAX_COUNT_OPERATION \<and>
        (\<forall>w \<in> set ws. write_ok w \<and> safe_write w) \<and> fold apply_write ws m = u)"

text \<open>Values a client can have: not empty (the proxy cannot tell an empty value from none), a C string,
  and short enough for every size computed from it.\<close>

definition stored_ok :: "string \<Rightarrow> bool" where
  "stored_ok v \<longleftrightarrow> v \<noteq> [] \<and> NUL \<notin> set v \<and> strlen v < 2 ^ 28"

text \<open>The invariant of the service in regime \<open>R\<close>: table \<open>t\<close>, number \<open>tn\<close>, database content \<open>m\<close>, and
  what the client sees is \<open>u\<close>.\<close>

definition service :: "'h dynahash \<Rightarrow> ('d \<Rightarrow> string \<Rightarrow> (string \<rightharpoonup> string) option) \<Rightarrow> string \<Rightarrow> int \<Rightarrow>
    dump_status \<Rightarrow> ('h, 'd, 'e) log_st_scheme \<Rightarrow> (string \<rightharpoonup> string) \<Rightarrow> (string \<rightharpoonup> string) \<Rightarrow> bool" where
  "service D hv t tn R s m u \<longleftrightarrow>
     status_ok t tn s \<and> caching_regime (config s) = R \<and> db_ok hv t s m \<and>
     u = regime_view R (cache_view D tn s) m \<and>
     (\<forall>k v. u k = Some v \<longrightarrow> stored_ok v) \<and>
     (R \<noteq> NO_CACHE \<longrightarrow> cache_ok D tn s) \<and> (R = GET_CACHE \<longrightarrow> u = m) \<and>
     (R = DEFFER_DUMP \<longrightarrow> log_covers t s m u)"

definition key_ok :: "string \<Rightarrow> string \<Rightarrow> bool" where
  "key_ok t k \<longleftrightarrow> sql_safe k \<and> k \<noteq> [] \<and> strlen k < 2 ^ 29"

text \<open>Values the proxy keeps faithfully.  A value too long for the cache, under a key that fits it, is
  excluded in the caching regimes (\<open>oversize_set_is_shadowed\<close> shows why).\<close>

definition storable :: "dump_status \<Rightarrow> string \<Rightarrow> string \<Rightarrow> bool" where
  "storable R k v \<longleftrightarrow> sql_safe v \<and> v \<noteq> [] \<and> strlen v < 2 ^ 28 \<and>
     (R \<noteq> NO_CACHE \<and> cache_key k \<longrightarrow> cache_value v)"

definition table_ok :: "string \<Rightarrow> bool" where
  "table_ok t \<longleftrightarrow> NUL \<notin> set t \<and> strlen t < 100"

lemma sql_safe_NUL: "sql_safe x \<Longrightarrow> NUL \<notin> set x"
  by (auto simp: sql_safe_def)

lemma key_fits: "key_ok t k \<Longrightarrow> strlen k + 1 < KEY_SIZE \<longleftrightarrow> cache_key k"
  by (auto simp: key_ok_def cache_key_def strlen_def sql_safe_NUL)

lemma state_frames:
  "hashes s' = hashes s \<Longrightarrow> cache_ok D tn s' = cache_ok D tn s"
  "hashes s' = hashes s \<Longrightarrow> cache_view D tn s' = cache_view D tn s"
  "proxy_configure s' = proxy_configure s \<Longrightarrow> status_ok t tn s' = status_ok t tn s"
  by (simp_all add: cache_ok_def table_at_def cache_view_def [abs_def] status_ok_def)

lemma log_frame:
  "logger_op s' = logger_op s \<Longrightarrow> op_nodes s' = op_nodes s \<Longrightarrow> log_covers t s' m u = log_covers t s m u"
  by (simp add: log_covers_def log_holds_def)

text \<open>The log never outgrows an \<^verbatim>\<open>int\<close>: at most 10000 statements of at most 326 bytes.\<close>

lemma log_size_bound:
  assumes "\<forall>w \<in> set ws. write_ok w" and "strlen t < 100"
  shows "log_size t ws \<le> 326 * int (length ws)"
  using assms(1)
proof (induction ws)
  case (Cons w ws)
  have "strlen (write_sql t w) \<le> 326"
    using Cons.prems assms(2)
    by (auto simp: write_ok_def cache_key_def cache_value_def strlen_def [of "fst w"] strlen_def [of "the (snd w)"]
        strlen_write_sql param_size_of_def op_reqv_size_def write_op_def split: option.splits)
       (simp add: strlen_def)
  then show ?case using Cons by simp
qed simp

lemma add_log_spec:
  assumes P: "hstore_laws P hv" and t: "table_ok t" and st: "status_ok t tn s" and db: "db_ok hv t s m"
    and cov: "log_covers t s m u" and w: "write_ok w" "safe_write w"
  shows "\<exists>s' m'. add_log P (write_op w) (fst w) (value_ptr w) s = (Ret 0, s') \<and> kept s s' \<and>
    hashes s' = hashes s \<and> db_ok hv t s' m' \<and> log_covers t s' m' (apply_write w u) \<and>
    (m' = m \<or> m' = apply_write w u)"
proof -
  obtain ws where ws: "log_holds t s ws" "int (length ws) < MAX_COUNT_OPERATION"
      "\<forall>w \<in> set ws. write_ok w \<and> safe_write w" "fold apply_write ws m = u"
    using cov by (auto simp: log_covers_def)
  have "mallocs_ok s" using db by (simp add: db_ok_def)
  with ws(1) w(1) st obtain ms l ns where
    lg: "log_operation (write_op w) (fst w) (value_ptr w) s =
        (Ret 0, s\<lparr>mallocs := ms, logger_op := Ptr l, op_nodes := ns\<rparr>)" "no_refusal ms"
      "log_holds t (s\<lparr>mallocs := ms, logger_op := Ptr l, op_nodes := ns\<rparr>) (ws @ [w])"
    using log_operation_spec [of t s ws w tn "value_ptr w"] by (auto simp: value_ptr_def write_ok_loggable)
  let ?s1 = "s\<lparr>mallocs := ms, logger_op := Ptr l, op_nodes := ns\<rparr>"
  have count: "count_operation l = int (length ws) + 1"
    using lg(3) by (auto simp: log_holds_def)
  have k1: "kept s ?s1" and h1: "hashes ?s1 = hashes s" by (simp_all add: kept_def)
  have db1: "db_ok hv t ?s1 m" and st1: "status_ok t tn ?s1"
    using db lg(2) st by (simp_all add: db_ok_def mallocs_ok_def status_ok_def)
  have add: "add_log P (write_op w) (fst w) (value_ptr w) s =
      (if count_operation l = MAX_COUNT_OPERATION
       then bnd (sync_with_db P) (\<lambda>r. if r = -1 then ret (-1) else ret 0) else ret 0) ?s1"
    by (simp add: add_log_def lg(1) the_logger_def run)
  have all: "\<forall>w \<in> set (ws @ [w]). write_ok w \<and> safe_write w" using ws(3) w by auto
  have u: "fold apply_write (ws @ [w]) m = apply_write w u" using ws(4) by simp
  show ?thesis
  proof (cases "count_operation l = MAX_COUNT_OPERATION")
    case False
    then have "log_covers t ?s1 m (apply_write w u)"
      using lg(3) all u ws(2) count unfolding log_covers_def by (intro exI [of _ "ws @ [w]"]) simp
    then show ?thesis using False add k1 h1 db1 by (intro exI [of _ ?s1] exI [of _ m]) (simp add: run)
  next
    case True
    have "log_size t (ws @ [w]) < 2 ^ 31 - 14"
      using log_size_bound [of "ws @ [w]" t] all t count True by (auto simp: table_ok_def)
    with lg(3) st1 db1 t all P obtain s' where s': "sync_with_db P ?s1 = (Ret 0, s')" "kept ?s1 s'"
        "hashes s' = hashes ?s1" "log_holds t s' []" "db_ok hv t s' (fold apply_write (ws @ [w]) m)"
      using sync_with_db_spec [of t ?s1 "ws @ [w]" tn hv m P] by (auto simp: table_ok_def)
    have "log_covers t s' (apply_write w u) (apply_write w u)"
      using s'(4) unfolding log_covers_def by (intro exI [of _ "[]"]) simp
    moreover have "db_ok hv t s' (apply_write w u)" using s'(5) u by simp
    ultimately show ?thesis
      using True add s'(1,3) k1 s'(2)
      by (intro exI [of _ s'] exI [of _ "apply_write w u"]) (auto simp: run intro: kept_trans)
  qed
qed

text \<open>A write to the cache, seen through the overlay; \<open>m'\<close> may already differ at the key.\<close>

lemma cache_put:
  assumes D: "dynahash_laws D" and ok: "cache_ok D tn s" and k: "cache_key k"
    and w: "w = None \<and> value = NULL \<and> st = CHR 0x01 \<or> (\<exists>v. w = Some v \<and> value = Ptr v \<and> cache_value v \<and> st = NUL)"
    and m: "\<And>k'. k' \<noteq> k \<Longrightarrow> m' k' = m k'"
  shows "\<exists>hs. set_hash_table D tn (Ptr k) value st s = (Ret 0, s\<lparr>hashes := hs\<rparr>) \<and>
    cache_ok D tn (s\<lparr>hashes := hs\<rparr>) \<and>
    overlay (cache_view D tn (s\<lparr>hashes := hs\<rparr>)) m' = (overlay (cache_view D tn s) m)(k := w)"
proof -
  obtain v where v: "value = NULL \<and> st = CHR 0x01 \<or> value = Ptr v \<and> cache_value v" using w by auto
  obtain hs where hs: "set_hash_table D tn (Ptr k) value st s = (Ret 0, s\<lparr>hashes := hs\<rparr>)"
     "cache_ok D tn (s\<lparr>hashes := hs\<rparr>)"
     "\<forall>k'. cache_key k' \<longrightarrow> cache_view D tn (s\<lparr>hashes := hs\<rparr>) k' =
        (if k' = k then Some (if st = CHR 0x01 then Gone else Present v) else cache_view D tn s k')"
    using set_hash_table_spec [OF D ok k v] by blast
  have "(if st = CHR 0x01 then Gone else Present v) = written w"
    using w v by (auto simp: written_def)
  then show ?thesis using hs overlay_write [OF k m] by auto
qed

section \<open>The requests implement the map\<close>

fun replies :: "string option \<Rightarrow> req_result \<times> string ptr \<times> int \<Rightarrow> bool" where
  "replies None r \<longleftrightarrow> fst r = NON \<and> fst (snd r) = NULL"
| "replies (Some v) r \<longleftrightarrow> r = (OK, Ptr v, strlen v + 1)"

lemma serviceD:
  assumes "service D hv t tn R s m u"
  shows "status_ok t tn s" "caching_regime (config s) = R" "db_ok hv t s m"
    "u = regime_view R (cache_view D tn s) m" "\<And>k v. u k = Some v \<Longrightarrow> stored_ok v"
    "R \<noteq> NO_CACHE \<Longrightarrow> cache_ok D tn s" "R = GET_CACHE \<Longrightarrow> u = m" "R = DEFFER_DUMP \<Longrightarrow> log_covers t s m u"
    "R \<noteq> NO_CACHE \<Longrightarrow> overlay (cache_view D tn s) m = u"
  using assms by (auto simp: service_def regime_view_def)

lemma service_step:
  assumes "service D hv t tn R s m u" and "kept s s'" and "db_ok hv t s' m'"
    and "R \<noteq> NO_CACHE \<Longrightarrow> cache_ok D tn s'" and "u' = regime_view R (cache_view D tn s') m'"
    and "\<And>k v. u' k = Some v \<Longrightarrow> stored_ok v" and "R = GET_CACHE \<Longrightarrow> u' = m'"
    and "R = DEFFER_DUMP \<Longrightarrow> log_covers t s' m' u'"
  shows "service D hv t tn R s' m' u'"
  using assms by (auto simp: service_def kept_def status_ok_def)

lemma service_frame:
  assumes "service D hv t tn R s m u" and "kept s s'" and "db_ok hv t s' m"
    and "hashes s' = hashes s" and "logger_op s' = logger_op s" and "op_nodes s' = op_nodes s"
  shows "service D hv t tn R s' m u"
  using serviceD [OF assms(1)] state_frames(1,2) [OF assms(4), of D tn] log_frame [OF assms(5,6), of t m u]
  by (intro service_step [OF assms(1-3)]) auto

lemma service_new_cache:
  assumes s: "service D hv t tn R s m u" and c: "R \<noteq> NO_CACHE" and "cache_ok D tn (s\<lparr>hashes := hs\<rparr>)"
    and u: "overlay (cache_view D tn (s\<lparr>hashes := hs\<rparr>)) m = u"
  shows "service D hv t tn R (s\<lparr>hashes := hs\<rparr>) m u"
proof (rule service_step [OF s])
  note S = serviceD [OF s]
  show "kept s (s\<lparr>hashes := hs\<rparr>)" by (simp add: kept_def)
  show "db_ok hv t (s\<lparr>hashes := hs\<rparr>) m" using S(3) by (simp add: db_ok_def mallocs_ok_def)
  show "u = regime_view R (cache_view D tn (s\<lparr>hashes := hs\<rparr>)) m" using c u by (simp add: regime_view_def)
  show "R = DEFFER_DUMP \<Longrightarrow> log_covers t (s\<lparr>hashes := hs\<rparr>) m u"
    using S(8) log_frame [of "s\<lparr>hashes := hs\<rparr>" s t m u] by simp
qed (use assms serviceD [OF s] in auto)

text \<open>Requests that bypass the cache: their regime or their key leaves it out.\<close>

lemma get_value_replies:
  assumes "\<And>v. m k = Some v \<Longrightarrow> v \<noteq> []"
  shows "replies (m k) (get_reply (m k))"
  using assms by (auto simp: get_reply_def split: option.splits)

lemma req_get_db:
  assumes P: "hstore_laws P hv" and t: "table_ok t" and k: "key_ok t k"
    and s: "service D hv t tn R s m u" and direct: "R = NO_CACHE \<or> \<not> cache_key k"
  shows "\<exists>r s'. req_get D P k out s = (Ret r, s') \<and> replies (u k) r \<and> service D hv t tn R s' m u \<and> kept s s'"
proof -
  note S = serviceD [OF s]
  have len: "strlen k + strlen t < 2 ^ 30" using t k by (auto simp: table_ok_def key_ok_def)
  have u: "u k = m k" using direct S(4) by (auto simp: regime_view_def overlay_def)
  have run: "req_get D P k out s = get_value P t k out s"
    using direct S(2) key_fits [OF k]
    by (auto simp: req_get_def Let_def bnd_run status_getters(1) [OF S(1)] get_caching_status_run)
  obtain ms r d where g: "get_value P t k out s =
        (Ret (get_reply (m k)), s\<lparr>mallocs := ms, res := r, server := d\<rparr>)"
      "db_ok hv t (s\<lparr>mallocs := ms, res := r, server := d\<rparr>) m"
    using get_value_spec [OF P S(3) _ len] k unfolding key_ok_def by blast
  have "service D hv t tn R (s\<lparr>mallocs := ms, res := r, server := d\<rparr>) m u"
    by (rule service_frame [OF s _ g(2)]) (simp_all add: kept_def)
  moreover have "replies (u k) (get_reply (m k))"
    using S(5) get_value_replies u unfolding stored_ok_def by metis
  moreover have "kept s (s\<lparr>mallocs := ms, res := r, server := d\<rparr>)" by (simp add: kept_def)
  ultimately show ?thesis using g(1) unfolding run by blast
qed

lemma req_get_cached:
  assumes D: "dynahash_laws D" and P: "hstore_laws P hv" and t: "table_ok t" and k: "key_ok t k"
    and s: "service D hv t tn R s m u" and c: "R \<noteq> NO_CACHE" "cache_key k"
  shows "\<exists>r s'. req_get D P k out s = (Ret r, s') \<and> replies (u k) r \<and> service D hv t tn R s' m u \<and> kept s s'"
proof -
  note S = serviceD [OF s]
  have len: "strlen k + strlen t < 2 ^ 30" using t k by (auto simp: table_ok_def key_ok_def)
  have R: "R = GET_CACHE \<or> R = ONLY_CACHE \<or> R = DEFFER_DUMP" using c(1) by (cases R) auto
  obtain a where a: "check_hash_table D tn k s = (Ret a, s)" "answers (cache_view D tn s k) a"
    using check_hash_table_spec [OF S(6) [OF c(1)] c(2)] by blast
  have fits: "strlen k + 1 < KEY_SIZE" using key_fits [OF k] c(2) by simp
  note go = req_get_def Let_def bnd_run get_caching_status_run S(2) fits status_getters [OF S(1)] a(1)
  have u: "u k = overlay (cache_view D tn s) m k" using S(9) [OF c(1)] by simp
  show ?thesis
  proof (cases "cache_view D tn s k")
    case (Some w)
    then show ?thesis
      using R a(2) s u c(2)
      by (cases w) (auto simp: go ret_run deref_run overlay_def)
  next
    case None
    then have miss: "a = (NULL, False)" and uk: "u k = m k" using a(2) u c(2) by (auto simp: overlay_def)
    obtain ms r d where g: "get_value P t k (NULL, snd out) s =
          (Ret (get_reply (m k)), s\<lparr>mallocs := ms, res := r, server := d\<rparr>)"
        "db_ok hv t (s\<lparr>mallocs := ms, res := r, server := d\<rparr>) m"
      using get_value_spec [OF P S(3) _ len] k unfolding key_ok_def by blast
    let ?s1 = "s\<lparr>mallocs := ms, res := r, server := d\<rparr>"
    have s1: "service D hv t tn R ?s1 m u" by (rule service_frame [OF s _ g(2)]) (simp_all add: kept_def)
    note S1 = serviceD [OF s1]
    have put: "\<exists>s'. set_hash_table D tn (Ptr k) vp st ?s1 = (Ret 0, s') \<and> service D hv t tn R s' m u \<and> kept s s'"
      if vp: "m k = None \<and> vp = NULL \<and> st = CHR 0x01 \<or> (\<exists>v. m k = Some v \<and> vp = Ptr v \<and> cache_value v \<and> st = NUL)"
      for vp st
    proof -
      obtain hs where hs: "set_hash_table D tn (Ptr k) vp st ?s1 = (Ret 0, ?s1\<lparr>hashes := hs\<rparr>)"
          "cache_ok D tn (?s1\<lparr>hashes := hs\<rparr>)"
          "overlay (cache_view D tn (?s1\<lparr>hashes := hs\<rparr>)) m = (overlay (cache_view D tn ?s1) m)(k := m k)"
        using cache_put [OF D S1(6) [OF c(1)] c(2) vp] by blast
      have "overlay (cache_view D tn (?s1\<lparr>hashes := hs\<rparr>)) m = u"
        using hs(3) S1(9) [OF c(1)] uk by auto
      with service_new_cache [OF s1 c(1) hs(2)] have "service D hv t tn R (?s1\<lparr>hashes := hs\<rparr>) m u" by simp
      moreover have "kept s (?s1\<lparr>hashes := hs\<rparr>)" by (simp add: kept_def)
      ultimately show ?thesis using hs(1) by blast
    qed
    show ?thesis
    proof (cases "m k")
      case None
      then obtain s' where "set_hash_table D tn (Ptr k) NULL (CHR 0x01) ?s1 = (Ret 0, s')"
          "service D hv t tn R s' m u" "kept s s'"
        using put [of NULL "CHR 0x01"] by auto
      then show ?thesis using R None uk by (auto simp: go miss g(1) get_reply_def ret_run)
    next
      case (Some v)
      then have v: "v \<noteq> []" "NUL \<notin> set v" using S(5) uk unfolding stored_ok_def by metis+
      show ?thesis
      proof (cases "strlen v + 1 < VALUE_SIZE")
        case True
        then have "cache_value v" using v by (simp add: cache_value_def strlen_def)
        then obtain s' where "set_hash_table D tn (Ptr k) (Ptr v) NUL ?s1 = (Ret 0, s')"
            "service D hv t tn R s' m u" "kept s s'"
          using put [of "Ptr v" NUL] Some by auto
        then show ?thesis using R Some uk v True by (auto simp: go miss g(1) get_reply_def ret_run deref_run)
      next
        case False
        then show ?thesis using R Some uk v s1 by (auto simp: go miss g(1) get_reply_def ret_run deref_run kept_def)
      qed
    qed
  qed
qed

lemma req_get_spec:
  assumes "dynahash_laws D" and "hstore_laws P hv" and "table_ok t" and "key_ok t k"
    and "service D hv t tn R s m u"
  shows "\<exists>r s'. req_get D P k out s = (Ret r, s') \<and> replies (u k) r \<and> service D hv t tn R s' m u \<and> kept s s'"
  using assms req_get_db [OF assms(2-5)] req_get_cached [OF assms] by blast

text \<open>Writes that go to the database alone.\<close>

lemma values_upd:
  assumes "\<And>k v. u k = Some v \<Longrightarrow> stored_ok v" and "\<And>v. w = Some v \<Longrightarrow> stored_ok v"
  shows "(u(k := w)) k' = Some v \<Longrightarrow> stored_ok v"
  using assms by (auto split: if_splits)

lemma log_covers_other:
  assumes "log_covers t s m u" and "\<not> cache_key k"
  shows "log_covers t s (m(k := w)) (u(k := w))"
proof -
  obtain ws where ws: "log_holds t s ws" "int (length ws) < MAX_COUNT_OPERATION"
      "\<forall>w \<in> set ws. write_ok w \<and> safe_write w" "fold apply_write ws m = u"
    using assms(1) unfolding log_covers_def by blast
  then have "k \<notin> fst ` set ws" using assms(2) by (auto simp: write_ok_def)
  then have "fold apply_write ws (m(k := w)) = u(k := w)"
    using fold_apply_write_other [of k ws m w] ws(4) by simp
  then show ?thesis using ws(1-3) unfolding log_covers_def by blast
qed

lemma log_covers_same_key:
  assumes "log_covers t s m u"
  shows "\<exists>u1. log_covers t s (m(k := x)) u1 \<and> (\<forall>w. u1(k := w) = u(k := w))"
proof -
  obtain ws where ws: "log_holds t s ws" "int (length ws) < MAX_COUNT_OPERATION"
      "\<forall>w \<in> set ws. write_ok w \<and> safe_write w" "fold apply_write ws m = u"
    using assms(1) unfolding log_covers_def by blast
  then show ?thesis
    using fold_apply_write_upd [of ws m k x] unfolding log_covers_def by metis
qed

lemma service_db_write:
  assumes s: "service D hv t tn R s m u" and direct: "R = NO_CACHE \<or> \<not> cache_key k"
    and w: "\<And>v. w = Some v \<Longrightarrow> stored_ok v"
    and s': "kept s s'" "hashes s' = hashes s" "logger_op s' = logger_op s" "op_nodes s' = op_nodes s"
    and db: "db_ok hv t s' (m(k := w))"
  shows "service D hv t tn R s' (m(k := w)) (u(k := w))"
proof (rule service_step [OF s s'(1) db])
  note S = serviceD [OF s]
  show "R \<noteq> NO_CACHE \<Longrightarrow> cache_ok D tn s'" using S(6) state_frames(1) [OF s'(2), of D tn] by simp
  show "u(k := w) = regime_view R (cache_view D tn s') (m(k := w))"
    using S(4) direct state_frames(2) [OF s'(2), of D tn] overlay_db_write [of k "cache_view D tn s" m w]
    by (auto simp: regime_view_def)
  show "\<And>k' v. (u(k := w)) k' = Some v \<Longrightarrow> stored_ok v"
    by (rule values_upd [OF S(5) w])
  show "R = GET_CACHE \<Longrightarrow> u(k := w) = m(k := w)" using S(7) by simp
  show "R = DEFFER_DUMP \<Longrightarrow> log_covers t s' (m(k := w)) (u(k := w))"
    using S(8) direct log_covers_other [of t s m u k w] log_frame [OF s'(3,4), of t] by auto
qed

text \<open>Writes that go to the cache (and, before it, perhaps to the database; \<open>m1\<close> is what is there).\<close>

lemma cache_step:
  assumes D: "dynahash_laws D" and s: "service D hv t tn R s m u" and c: "R \<noteq> NO_CACHE" "cache_key k"
    and w: "w = None \<and> vp = NULL \<and> st = CHR 0x01 \<or>
      (\<exists>v. w = Some v \<and> vp = Ptr v \<and> cache_value v \<and> v \<noteq> [] \<and> st = NUL)"
    and s1: "kept s s1" "hashes s1 = hashes s" "logger_op s1 = logger_op s" "op_nodes s1 = op_nodes s"
    and db: "db_ok hv t s1 m1" and m1: "\<And>k'. k' \<noteq> k \<Longrightarrow> m1 k' = m k'"
  shows "\<exists>s2. set_hash_table D tn (Ptr k) vp st s1 = (Ret 0, s2) \<and> kept s s2 \<and> db_ok hv t s2 m1 \<and>
    cache_ok D tn s2 \<and> overlay (cache_view D tn s2) m1 = u(k := w) \<and>
    logger_op s2 = logger_op s \<and> op_nodes s2 = op_nodes s"
proof -
  note S = serviceD [OF s]
  have "cache_ok D tn s1" using S(6) [OF c(1)] state_frames(1) [OF s1(2), of D tn] by simp
  moreover have "w = None \<and> vp = NULL \<and> st = CHR 0x01 \<or> (\<exists>v. w = Some v \<and> vp = Ptr v \<and> cache_value v \<and> st = NUL)"
    using w by blast
  ultimately obtain hs where
    hs: "set_hash_table D tn (Ptr k) vp st s1 = (Ret 0, s1\<lparr>hashes := hs\<rparr>)"
      "cache_ok D tn (s1\<lparr>hashes := hs\<rparr>)"
      "overlay (cache_view D tn (s1\<lparr>hashes := hs\<rparr>)) m1 = (overlay (cache_view D tn s1) m)(k := w)"
    using cache_put [where m = m and m' = m1, OF D _ c(2) _ m1] by blast
  have "overlay (cache_view D tn (s1\<lparr>hashes := hs\<rparr>)) m1 = u(k := w)"
    using hs(3) S(9) [OF c(1)] state_frames(2) [OF s1(2), of D tn] by simp
  moreover have "db_ok hv t (s1\<lparr>hashes := hs\<rparr>) m1" "kept s (s1\<lparr>hashes := hs\<rparr>)"
    using db s1(1) by (simp_all add: db_ok_def mallocs_ok_def kept_def)
  ultimately show ?thesis
    using hs(1,2) s1(3,4) by (intro exI [of _ "s1\<lparr>hashes := hs\<rparr>"]) simp
qed

lemma service_cached_write:
  assumes s: "service D hv t tn R s m u" and c: "R \<noteq> NO_CACHE"
    and w: "\<And>v. w = Some v \<Longrightarrow> stored_ok v"
    and s2: "kept s s2" "db_ok hv t s2 m1" "cache_ok D tn s2" "overlay (cache_view D tn s2) m1 = u(k := w)"
    and g: "R = GET_CACHE \<Longrightarrow> m1 = m(k := w)" and l: "R = DEFFER_DUMP \<Longrightarrow> log_covers t s2 m1 (u(k := w))"
  shows "service D hv t tn R s2 m1 (u(k := w))"
proof (rule service_step [OF s s2(1,2)])
  note S = serviceD [OF s]
  show "\<And>k' v. (u(k := w)) k' = Some v \<Longrightarrow> stored_ok v"
    by (rule values_upd [OF S(5) w])
  show "R = GET_CACHE \<Longrightarrow> u(k := w) = m1" using g S(7) by simp
  show "u(k := w) = regime_view R (cache_view D tn s2) m1" using c s2(4) by (simp add: regime_view_def)
qed (use s2 l in auto)

lemma service_logged_write:
  assumes P: "hstore_laws P hv" and t: "table_ok t" and s: "service D hv t tn DEFFER_DUMP s m u"
    and w: "write_ok (k, w)" "safe_write (k, w)" "\<And>v. w = Some v \<Longrightarrow> stored_ok v"
    and s2: "kept s s2" "db_ok hv t s2 m1" "cache_ok D tn s2" "overlay (cache_view D tn s2) m1 = u(k := w)"
      "logger_op s2 = logger_op s" "op_nodes s2 = op_nodes s" and m1: "m1 = m \<or> m1 = m(k := x)"
  shows "\<exists>s3 m3. add_log P (write_op (k, w)) k (value_ptr (k, w)) s2 = (Ret 0, s3) \<and> kept s s3 \<and>
    service D hv t tn DEFFER_DUMP s3 m3 (u(k := w))"
proof -
  note S = serviceD [OF s]
  have "log_covers t s m u" using S(8) by simp
  then obtain u1 where u1: "log_covers t s m1 u1" "\<And>w. u1(k := w) = u(k := w)"
    using m1 log_covers_same_key [of t s m u k x] by blast
  have "log_covers t s2 m1 u1" using u1(1) log_frame [OF s2(5,6)] by simp
  moreover have "status_ok t tn s2" using S(1) s2(1) by (simp add: kept_def status_ok_def)
  ultimately obtain s3 m3 where s3: "add_log P (write_op (k, w)) k (value_ptr (k, w)) s2 = (Ret 0, s3)"
      "kept s2 s3" "hashes s3 = hashes s2" "db_ok hv t s3 m3" "log_covers t s3 m3 (u(k := w))"
      "m3 = m1 \<or> m3 = u(k := w)"
    using add_log_spec [OF P t _ s2(2) _ w(1,2), of tn u1] u1(2) by (auto simp: apply_write_def)
  have view: "overlay (cache_view D tn s3) m3 = u(k := w)"
    using s2(4) s3(6) state_frames(2) [OF s3(3), of D tn] by (metis overlay_idem)
  have "cache_ok D tn s3" using s2(3) state_frames(1) [OF s3(3), of D tn] by simp
  then have "service D hv t tn DEFFER_DUMP s3 m3 (u(k := w))"
    using s3(4,5) view kept_trans [OF s2(1) s3(2)] w(3) by (intro service_cached_write [OF s]) auto
  then show ?thesis using s3(1) kept_trans [OF s2(1) s3(2)] by blast
qed

lemma storable_facts:
  assumes "key_ok t k" and "storable R k v" and "table_ok t"
  shows "sql_safe k" "sql_safe v" "strlen k + strlen t + strlen v < 2 ^ 30" "stored_ok v"
    "R \<noteq> NO_CACHE \<Longrightarrow> cache_key k \<Longrightarrow> cache_value v"
  using assms by (auto simp: key_ok_def storable_def table_ok_def stored_ok_def sql_safe_NUL)

lemma req_set_spec:
  assumes D: "dynahash_laws D" and P: "hstore_laws P hv" and t: "table_ok t" and k: "key_ok t k"
    and v: "storable R k v" and s: "service D hv t tn R s m u"
  shows "\<exists>s' m'. req_set D P k v s = (Ret OK, s') \<and> service D hv t tn R s' m' (u(k \<mapsto> v)) \<and> kept s s'"
proof -
  note S = serviceD [OF s] and F = storable_facts [OF k v t]
  obtain ms r d where w: "set_value P t k v s = (Ret OK, s\<lparr>mallocs := ms, res := r, server := d\<rparr>)"
      "db_ok hv t (s\<lparr>mallocs := ms, res := r, server := d\<rparr>) (m(k \<mapsto> v))"
    using set_value_spec [OF P S(3) F(1-3)] by blast
  let ?s1 = "s\<lparr>mallocs := ms, res := r, server := d\<rparr>"
  have k1: "kept s ?s1" by (simp add: kept_def)
  show ?thesis
  proof (cases "R = NO_CACHE \<or> \<not> cache_key k")
    case True
    then have "req_set D P k v s = set_value P t k v s"
      using S(2) key_fits [OF k]
      by (auto simp: req_set_def Let_def bnd_run status_getters(1) [OF S(1)] get_caching_status_run)
    moreover have "service D hv t tn R ?s1 (m(k \<mapsto> v)) (u(k \<mapsto> v))"
      using F(4) by (intro service_db_write [OF s True _ k1 _ _ _ w(2)]) auto
    ultimately show ?thesis using w(1) k1 by auto
  next
    case False
    then have c: "R \<noteq> NO_CACHE" "cache_key k" and fits: "strlen k + 1 < KEY_SIZE" "strlen v + 1 < VALUE_SIZE"
      using F(5) key_fits [OF k] by (auto simp: cache_value_def strlen_def)
    have val: "Some v = None \<and> Ptr v = NULL \<and> NUL = CHR 0x01 \<or>
        (\<exists>v'. Some v = Some v' \<and> Ptr v = Ptr v' \<and> cache_value v' \<and> v' \<noteq> [] \<and> NUL = NUL)"
      using F c by (simp add: stored_ok_def)
    note go = req_set_def Let_def bnd_run get_caching_status_run S(2) fits status_getters [OF S(1)] ret_run
    have put: "\<exists>s2. set_hash_table D tn (Ptr k) (Ptr v) NUL s1 = (Ret 0, s2) \<and> kept s s2 \<and> db_ok hv t s2 m1 \<and>
        cache_ok D tn s2 \<and> overlay (cache_view D tn s2) m1 = u(k \<mapsto> v) \<and>
        logger_op s2 = logger_op s \<and> op_nodes s2 = op_nodes s"
      if "kept s s1" "hashes s1 = hashes s" "logger_op s1 = logger_op s" "op_nodes s1 = op_nodes s"
        "db_ok hv t s1 m1" "\<And>k'. k' \<noteq> k \<Longrightarrow> m1 k' = m k'" for s1 m1
      using cache_step [OF D s c val that(1-5)] that(6) by blast
    consider (g) "R = GET_CACHE" | (o) "R = ONLY_CACHE" | (d) "R = DEFFER_DUMP" using c(1) by (cases R) auto
    then show ?thesis
    proof cases
      case g
      obtain s2 where s2: "set_hash_table D tn (Ptr k) (Ptr v) NUL ?s1 = (Ret 0, s2)" "kept s s2"
          "db_ok hv t s2 (m(k \<mapsto> v))" "cache_ok D tn s2"
          "overlay (cache_view D tn s2) (m(k \<mapsto> v)) = u(k \<mapsto> v)"
        using put [of ?s1 "m(k \<mapsto> v)"] k1 w(2) by auto
      have "service D hv t tn R s2 (m(k \<mapsto> v)) (u(k \<mapsto> v))"
        using g F(4) by (intro service_cached_write [OF s c(1) _ s2(2-5)]) auto
      then show ?thesis using s2 g fits by (auto simp: go w(1))
    next
      case o
      obtain s2 where s2: "set_hash_table D tn (Ptr k) (Ptr v) NUL s = (Ret 0, s2)" "kept s s2"
          "db_ok hv t s2 m" "cache_ok D tn s2" "overlay (cache_view D tn s2) m = u(k \<mapsto> v)"
        using put [of s m] S(3) by auto
      have "service D hv t tn R s2 m (u(k \<mapsto> v))"
        using o F(4) by (intro service_cached_write [OF s c(1) _ s2(2-5)]) auto
      then show ?thesis using s2 o fits by (auto simp: go)
    next
      case d
      obtain s2 where s2: "set_hash_table D tn (Ptr k) (Ptr v) NUL s = (Ret 0, s2)" "kept s s2"
          "db_ok hv t s2 m" "cache_ok D tn s2" "overlay (cache_view D tn s2) m = u(k \<mapsto> v)"
          "logger_op s2 = logger_op s" "op_nodes s2 = op_nodes s"
        using put [of s m] S(3) by auto
      have "write_ok (k, Some v)" "safe_write (k, Some v)" "\<And>v'. Some v = Some v' \<Longrightarrow> stored_ok v'"
        using F c by (simp_all add: write_ok_def safe_write_def)
      with service_logged_write [where x = None, OF P t s [unfolded d] _ _ _ s2(2-7)] obtain s3 m3 where
        "add_log P (write_op (k, Some v)) k (value_ptr (k, Some v)) s2 = (Ret 0, s3)" "kept s s3"
        "service D hv t tn DEFFER_DUMP s3 m3 (u(k \<mapsto> v))" by blast
      then show ?thesis using s2(1) d fits by (auto simp: go write_op_def value_ptr_def)
    qed
  qed
qed

lemma req_del_spec:
  assumes D: "dynahash_laws D" and P: "hstore_laws P hv" and t: "table_ok t" and k: "key_ok t k"
    and s: "service D hv t tn R s m u"
  shows "\<exists>s' m'. req_del D P k s = (Ret (if u k = None then NON else OK), s') \<and>
    service D hv t tn R s' m' (u(k := None)) \<and> kept s s'"
proof -
  note S = serviceD [OF s]
  have len: "strlen k + strlen t < 2 ^ 30" and safe: "sql_safe k"
    using t k by (auto simp: table_ok_def key_ok_def)
  obtain ms r d where w: "del_value P t k s =
        (Ret (if m k = None then NON else OK), s\<lparr>mallocs := ms, res := r, server := d\<rparr>)"
      "db_ok hv t (s\<lparr>mallocs := ms, res := r, server := d\<rparr>) (m(k := None))"
    using del_value_spec [OF P S(3) safe len] by blast
  let ?s1 = "s\<lparr>mallocs := ms, res := r, server := d\<rparr>"
  have k1: "kept s ?s1" by (simp add: kept_def)
  show ?thesis
  proof (cases "R = NO_CACHE \<or> \<not> cache_key k")
    case True
    then have "req_del D P k s = del_value P t k s"
      using S(2) key_fits [OF k]
      by (auto simp: req_del_def Let_def bnd_run status_getters(1) [OF S(1)] get_caching_status_run)
    moreover have "service D hv t tn R ?s1 (m(k := None)) (u(k := None))"
      by (intro service_db_write [OF s True _ k1 _ _ _ w(2)]) auto
    moreover have "u k = m k" using S(4) True by (auto simp: regime_view_def overlay_def)
    ultimately show ?thesis using w(1) k1 by auto
  next
    case False
    then have c: "R \<noteq> NO_CACHE" "cache_key k" and fits: "strlen k + 1 < KEY_SIZE"
      using key_fits [OF k] by auto
    have val: "None = None \<and> NULL = NULL \<and> CHR 0x01 = CHR 0x01 \<or>
        (\<exists>v'. None = Some v' \<and> NULL = Ptr v' \<and> cache_value v' \<and> v' \<noteq> [] \<and> CHR 0x01 = NUL)" by simp
    note go = req_del_def Let_def bnd_run get_caching_status_run S(2) fits status_getters [OF S(1)] ret_run
    have put: "\<exists>s2. set_hash_table D tn (Ptr k) NULL (CHR 0x01) s1 = (Ret 0, s2) \<and> kept s s2 \<and>
        db_ok hv t s2 m1 \<and> cache_ok D tn s2 \<and> overlay (cache_view D tn s2) m1 = u(k := None) \<and>
        logger_op s2 = logger_op s \<and> op_nodes s2 = op_nodes s"
      if "kept s s1" "hashes s1 = hashes s" "logger_op s1 = logger_op s" "op_nodes s1 = op_nodes s"
        "db_ok hv t s1 m1" "\<And>k'. k' \<noteq> k \<Longrightarrow> m1 k' = m k'" for s1 m1
      using cache_step [OF D s c val that(1-5)] that(6) by blast
    show ?thesis
    proof (cases "R = GET_CACHE")
      case True
      obtain s2 where s2: "set_hash_table D tn (Ptr k) NULL (CHR 0x01) ?s1 = (Ret 0, s2)" "kept s s2"
          "db_ok hv t s2 (m(k := None))" "cache_ok D tn s2"
          "overlay (cache_view D tn s2) (m(k := None)) = u(k := None)"
        using put [of ?s1 "m(k := None)"] k1 w(2) by auto
      have "service D hv t tn R s2 (m(k := None)) (u(k := None))"
        using True by (intro service_cached_write [OF s c(1) _ s2(2-5)]) auto
      then show ?thesis using s2 True fits S(7) by (auto simp: go w(1))
    next
      case False
      then have R: "R = ONLY_CACHE \<or> R = DEFFER_DUMP" using c(1) by (cases R) auto
      obtain a where a: "check_hash_table D tn k s = (Ret a, s)" "answers (cache_view D tn s k) a"
        using check_hash_table_spec [OF S(6) [OF c(1)] c(2)] by blast
      have uk: "u k = overlay (cache_view D tn s) m k" using S(9) [OF c(1)] by simp
      have "\<exists>s1 m1. (if fst a \<noteq> NULL \<and> snd a then ret OK
             else if fst a = NULL \<and> snd a then ret NON
             else bnd get_cur_table_name (\<lambda>t. del_value P t k)) s =
           (Ret (if u k = None then NON else OK), s1) \<and> (s1 = s \<and> m1 = m \<or> s1 = ?s1 \<and> m1 = m(k := None))"
        using a(2) uk c(2) w(1)
        by (cases "cache_view D tn s k"; cases "the (cache_view D tn s k)")
           (auto simp: overlay_def ret_run bnd_run status_getters(1) [OF S(1)])
      then obtain s1 m1 where
        s1: "(if fst a \<noteq> NULL \<and> snd a then ret OK
             else if fst a = NULL \<and> snd a then ret NON
             else bnd get_cur_table_name (\<lambda>t. del_value P t k)) s =
           (Ret (if u k = None then NON else OK), s1)" and
        m1: "s1 = s \<and> m1 = m \<or> s1 = ?s1 \<and> m1 = m(k := None)" by blast
      obtain s2 where s2: "set_hash_table D tn (Ptr k) NULL (CHR 0x01) s1 = (Ret 0, s2)" "kept s s2"
          "db_ok hv t s2 m1" "cache_ok D tn s2" "overlay (cache_view D tn s2) m1 = u(k := None)"
          "logger_op s2 = logger_op s" "op_nodes s2 = op_nodes s"
        using put [of s1 m1] m1 k1 w(2) S(3) by auto
      have head: "req_del D P k s =
          (if R = DEFFER_DUMP
           then bnd (add_log P DEL k NULL)
                  (\<lambda>e. if e = -1 then ret ERR_REQ else ret (if u k = None then NON else OK))
           else ret (if u k = None then NON else OK)) s2"
        using R False a(1) s1 s2(1) fits by (cases a) (auto simp: go)
      show ?thesis
      proof (cases "R = DEFFER_DUMP")
        case True
        have "write_ok (k, None)" "safe_write (k, None)"
          using safe c by (simp_all add: write_ok_def safe_write_def)
        with service_logged_write [where x = None, OF P t s [unfolded True] _ _ _ s2(2-7)] m1 obtain s3 m3 where
          "add_log P (write_op (k, None)) k (value_ptr (k, None)) s2 = (Ret 0, s3)" "kept s s3"
          "service D hv t tn DEFFER_DUMP s3 m3 (u(k := None))" by auto
        then show ?thesis using head True by (auto simp: write_op_def value_ptr_def bnd_run ret_run)
      next
        case False
        then have "service D hv t tn R s2 m1 (u(k := None))"
          using R by (intro service_cached_write [OF s c(1) _ s2(2-5)]) auto
        then show ?thesis using head False s2(2) by (auto simp: ret_run)
      qed
    qed
  qed
qed

section \<open>The interface of the request layer\<close>

datatype request = Get string | Set string string | Del string

type_synonym answer = "req_result \<times> string ptr"

text \<open>The abstract service: a map, and what each request answers.\<close>

fun spec_step :: "request \<Rightarrow> (string \<rightharpoonup> string) \<Rightarrow> answer \<times> (string \<rightharpoonup> string)" where
  "spec_step (Get k) m = ((case m k of None \<Rightarrow> (NON, NULL) | Some v \<Rightarrow> (OK, Ptr v)), m)"
| "spec_step (Set k v) m = ((OK, NULL), m(k \<mapsto> v))"
| "spec_step (Del k) m = ((if m k = None then NON else OK, NULL), m(k := None))"

fun spec_run :: "request list \<Rightarrow> (string \<rightharpoonup> string) \<Rightarrow> answer list \<times> (string \<rightharpoonup> string)" where
  "spec_run [] m = ([], m)"
| "spec_run (q # qs) m =
     (let (a, m') = spec_step q m; (as, m'') = spec_run qs m' in (a # as, m''))"

type_synonym ('s) getter = "string \<Rightarrow> string ptr \<times> int \<Rightarrow> ('s, req_result \<times> string ptr \<times> int) prog"

fun run_request :: "'s getter \<Rightarrow> (string \<Rightarrow> string \<Rightarrow> ('s, req_result) prog) \<Rightarrow>
    (string \<Rightarrow> ('s, req_result) prog) \<Rightarrow> request \<Rightarrow> ('s, answer) prog" where
  "run_request getf setf delf (Get k) = bnd (getf k (NULL, 0)) (\<lambda>(r, v, n). ret (r, v))"
| "run_request getf setf delf (Set k v) = bnd (setf k v) (\<lambda>r. ret (r, NULL))"
| "run_request getf setf delf (Del k) = bnd (delf k) (\<lambda>r. ret (r, NULL))"

fun run_requests :: "(request \<Rightarrow> ('s, answer) prog) \<Rightarrow> request list \<Rightarrow> ('s, answer list) prog" where
  "run_requests run1 [] = ret []"
| "run_requests run1 (q # qs) = bnd (run1 q) (\<lambda>a. bnd (run_requests run1 qs) (\<lambda>as. ret (a # as)))"

fun valid_request :: "(string \<Rightarrow> bool) \<Rightarrow> (string \<Rightarrow> string \<Rightarrow> bool) \<Rightarrow> request \<Rightarrow> bool" where
  "valid_request good_key good_value (Get k) = good_key k"
| "valid_request good_key good_value (Set k v) = (good_key k \<and> good_value k v)"
| "valid_request good_key good_value (Del k) = good_key k"

locale kv_service =
  fixes get :: "'s getter"
    and set_op :: "string \<Rightarrow> string \<Rightarrow> ('s, req_result) prog"
    and del :: "string \<Rightarrow> ('s, req_result) prog"
    and view :: "'s \<Rightarrow> string \<rightharpoonup> string"
    and ok :: "'s \<Rightarrow> bool"
    and good_key :: "string \<Rightarrow> bool"
    and good_value :: "string \<Rightarrow> string \<Rightarrow> bool"
  assumes get_spec: "ok s \<Longrightarrow> good_key k \<Longrightarrow>
      \<exists>r s'. get k out s = (Ret r, s') \<and> replies (view s k) r \<and> ok s' \<and> view s' = view s"
    and set_spec: "ok s \<Longrightarrow> good_key k \<Longrightarrow> good_value k v \<Longrightarrow>
      \<exists>s'. set_op k v s = (Ret OK, s') \<and> ok s' \<and> view s' = (view s)(k \<mapsto> v)"
    and del_spec: "ok s \<Longrightarrow> good_key k \<Longrightarrow>
      \<exists>s'. del k s = (Ret (if view s k = None then NON else OK), s') \<and> ok s' \<and> view s' = (view s)(k := None)"
begin

abbreviation run1 :: "request \<Rightarrow> ('s, answer) prog" where
  "run1 \<equiv> run_request get set_op del"

lemma request_refines:
  assumes "ok s" and "valid_request good_key good_value q"
  shows "\<exists>s'. run1 q s = (Ret (fst (spec_step q (view s))), s') \<and> ok s' \<and>
    view s' = snd (spec_step q (view s))"
proof (cases q)
  case (Get k)
  then obtain r s' where "get k (NULL, 0) s = (Ret r, s')" "replies (view s k) r" "ok s'" "view s' = view s"
    using get_spec [of s k "(NULL, 0)"] assms by auto
  then show ?thesis using Get by (cases "view s k"; cases r) (auto simp: run)
next
  case (Set k v)
  then show ?thesis using set_spec [of s k v] assms by (auto simp: run)
next
  case (Del k)
  then show ?thesis using del_spec [of s k] assms by (auto simp: run)
qed

lemma requests_refine:
  "ok s \<Longrightarrow> \<forall>q \<in> set qs. valid_request good_key good_value q \<Longrightarrow>
   \<exists>s'. run_requests run1 qs s = (Ret (fst (spec_run qs (view s))), s') \<and> ok s' \<and>
     view s' = snd (spec_run qs (view s))"
proof (induction qs arbitrary: s)
  case Nil
  then show ?case by (simp add: run)
next
  case (Cons q qs)
  obtain s1 where s1: "run1 q s = (Ret (fst (spec_step q (view s))), s1)" "ok s1"
      "view s1 = snd (spec_step q (view s))"
    using request_refines [of s q] Cons.prems by auto
  obtain s2 where s2: "run_requests run1 qs s1 = (Ret (fst (spec_run qs (view s1))), s2)" "ok s2"
      "view s2 = snd (spec_run qs (view s1))"
    using Cons.IH [OF s1(2)] Cons.prems by auto
  show ?case
    using s1 s2
    by (intro exI [of _ s2]) (simp add: bnd_Ret [of "run1 q", OF s1(1)] bnd_run ret_run split: prod.splits)
qed

end

text \<open>A service whose contents can be brought into a durable store.\<close>

locale flushed_service = kv_service get set_op del view ok good_key good_value
  for get :: "'s getter"
    and set_op :: "string \<Rightarrow> string \<Rightarrow> ('s, req_result) prog"
    and del :: "string \<Rightarrow> ('s, req_result) prog"
    and view :: "'s \<Rightarrow> string \<rightharpoonup> string"
    and ok :: "'s \<Rightarrow> bool"
    and good_key :: "string \<Rightarrow> bool"
    and good_value :: "string \<Rightarrow> string \<Rightarrow> bool" +
  fixes flush :: "('s, int) prog"
    and stored :: "'s \<Rightarrow> string \<rightharpoonup> string"
  assumes flush_spec: "ok s \<Longrightarrow> \<exists>s'. flush s = (Ret 0, s') \<and> ok s' \<and> view s' = view s \<and> stored s' = view s"
begin

lemma requests_then_flush:
  assumes "ok s" and "\<forall>q \<in> set qs. valid_request good_key good_value q"
  shows "\<exists>s'. bnd (run_requests run1 qs) (\<lambda>as. bnd flush (\<lambda>r. ret (as, r))) s =
      (Ret (fst (spec_run qs (view s)), 0), s') \<and> ok s' \<and>
    view s' = snd (spec_run qs (view s)) \<and> stored s' = snd (spec_run qs (view s))"
proof -
  obtain s1 where s1: "run_requests run1 qs s = (Ret (fst (spec_run qs (view s))), s1)" "ok s1"
      "view s1 = snd (spec_run qs (view s))"
    using requests_refine [OF assms] by blast
  obtain s2 where "flush s1 = (Ret 0, s2)" "ok s2" "view s2 = view s1" "stored s2 = view s1"
    using flush_spec [OF s1(2)] by blast
  then show ?thesis using s1 by (simp add: bnd_run ret_run)
qed

end

text \<open>The proxy's requests provide this interface, in every caching regime.\<close>

definition pg_ok :: "'h dynahash \<Rightarrow> 'd libpq \<Rightarrow> ('d \<Rightarrow> string \<Rightarrow> (string \<rightharpoonup> string) option) \<Rightarrow> string \<Rightarrow> int \<Rightarrow>
    dump_status \<Rightarrow> ('h, 'd, 'e) log_st_scheme \<Rightarrow> bool" where
  "pg_ok D P hv t tn R s \<longleftrightarrow>
     dynahash_laws D \<and> hstore_laws P hv \<and> table_ok t \<and> (\<exists>m u. service D hv t tn R s m u)"

definition pg_stored :: "('d \<Rightarrow> string \<Rightarrow> (string \<rightharpoonup> string) option) \<Rightarrow> string \<Rightarrow>
    ('h, 'd, 'e) log_st_scheme \<Rightarrow> string \<rightharpoonup> string" where
  "pg_stored hv t s = the (hv (server s) t)"

definition pg_view :: "'h dynahash \<Rightarrow> ('d \<Rightarrow> string \<Rightarrow> (string \<rightharpoonup> string) option) \<Rightarrow> string \<Rightarrow> int \<Rightarrow>
    dump_status \<Rightarrow> ('h, 'd, 'e) log_st_scheme \<Rightarrow> string \<rightharpoonup> string" where
  "pg_view D hv t tn R s = regime_view R (cache_view D tn s) (pg_stored hv t s)"

lemma service_views:
  assumes "service D hv t tn R s m u"
  shows "pg_view D hv t tn R s = u" and "pg_stored hv t s = m"
  using serviceD(3,4) [OF assms] by (auto simp: pg_view_def pg_stored_def db_ok_def)

interpretation pg_service: kv_service "req_get D P" "req_set D P" "req_del D P" "pg_view D hv t tn R"
  "pg_ok D P hv t tn R" "key_ok t" "storable R"
  for D :: "'h dynahash" and P :: "'d libpq" and hv :: "'d \<Rightarrow> string \<Rightarrow> (string \<rightharpoonup> string) option"
    and t :: string and tn :: int and R :: dump_status
proof (unfold_locales, goal_cases)
  case (1 s k out)
  then obtain m u where "dynahash_laws D" "hstore_laws P hv" "table_ok t" "service D hv t tn R s m u"
    by (auto simp: pg_ok_def)
  with req_get_spec [OF this(1-3) 1(2) this(4), of out] show ?case
    using service_views(1) unfolding pg_ok_def by metis
next
  case (2 s k v)
  then obtain m u where "dynahash_laws D" "hstore_laws P hv" "table_ok t" "service D hv t tn R s m u"
    by (auto simp: pg_ok_def)
  with req_set_spec [OF this(1-3) 2(2,3) this(4)] show ?case
    using service_views(1) unfolding pg_ok_def by metis
next
  case (3 s k)
  then obtain m u where "dynahash_laws D" "hstore_laws P hv" "table_ok t" "service D hv t tn R s m u"
    by (auto simp: pg_ok_def)
  with req_del_spec [OF this(1-3) 3(2) this(4)] show ?case
    using service_views(1) unfolding pg_ok_def by metis
qed

text \<open>In the deferred regime the timer's \<^verbatim>\<open>sync_with_db\<close> is the flush.\<close>

lemma deferred_flush:
  assumes P: "hstore_laws P hv" and t: "table_ok t" and s: "service D hv t tn DEFFER_DUMP s m u"
  shows "\<exists>s'. sync_with_db P s = (Ret 0, s') \<and> kept s s' \<and> log_holds t s' [] \<and>
    service D hv t tn DEFFER_DUMP s' u u"
proof -
  note S = serviceD [OF s]
  obtain ws where ws: "log_holds t s ws" "int (length ws) < MAX_COUNT_OPERATION"
      "\<forall>w \<in> set ws. write_ok w \<and> safe_write w" "fold apply_write ws m = u"
    using S(8) by (auto simp: log_covers_def)
  have "log_size t ws < 2 ^ 31 - 14"
    using log_size_bound [of ws t] ws(2,3) t by (auto simp: table_ok_def)
  then obtain s' where s': "sync_with_db P s = (Ret 0, s')" "kept s s'" "hashes s' = hashes s"
      "log_holds t s' []" "db_ok hv t s' u"
    using sync_with_db_spec [OF ws(1) S(1) S(3) _ _ _ P] t ws(3,4) by (auto simp: table_ok_def)
  have "service D hv t tn DEFFER_DUMP s' u u"
  proof (rule service_step [OF s s'(2,5)])
    show "cache_ok D tn s'" using S(6) state_frames(1) [OF s'(3), of D tn] by simp
    show "u = regime_view DEFFER_DUMP (cache_view D tn s') u"
      using S(9) state_frames(2) [OF s'(3), of D tn] overlay_idem by (metis dump_status.distinct(5) regime_view_def)
    show "log_covers t s' u u"
      using s'(4) unfolding log_covers_def by (intro exI [of _ "[]"]) simp
  qed (use S(5) in auto)
  then show ?thesis using s' by blast
qed

interpretation deferred: flushed_service "req_get D P" "req_set D P" "req_del D P" "pg_view D hv t tn DEFFER_DUMP"
  "pg_ok D P hv t tn DEFFER_DUMP" "key_ok t" "storable DEFFER_DUMP" "sync_with_db P" "pg_stored hv t"
  for D :: "'h dynahash" and P :: "'d libpq" and hv :: "'d \<Rightarrow> string \<Rightarrow> (string \<rightharpoonup> string) option"
    and t :: string and tn :: int
proof (unfold_locales, goal_cases)
  case (1 s)
  then obtain m u where L: "dynahash_laws D" "hstore_laws P hv" "table_ok t" "service D hv t tn DEFFER_DUMP s m u"
    by (auto simp: pg_ok_def)
  with deferred_flush [OF this(2-4)] show ?case
    using service_views unfolding pg_ok_def by metis
qed

section \<open>A value too long for the cache is shadowed by an older one\<close>

lemma oversize_set_then_get:
  assumes P: "hstore_laws P hv" and D: "dynahash_laws D" and t: "table_ok t" and k: "key_ok t k" "cache_key k"
    and s: "service D hv t tn R s m u" and R: "R \<noteq> NO_CACHE"
    and old: "cache_view D tn s k = Some (Present old)"
    and v: "sql_safe v" "VALUE_SIZE \<le> strlen v + 1" "strlen v < 2 ^ 28"
  shows "\<exists>s'. run_requests (run_request (req_get D P) (req_set D P) (req_del D P)) [Set k v, Get k] s =
      (Ret [(OK, NULL), (OK, Ptr old)], s') \<and> hv (server s') t = Some (m(k \<mapsto> v))"
proof -
  note S = serviceD [OF s]
  have len: "strlen k + strlen t + strlen v < 2 ^ 30" "sql_safe k"
    using t k v(3) by (auto simp: table_ok_def key_ok_def)
  obtain ms r d where w: "set_value P t k v s = (Ret OK, s\<lparr>mallocs := ms, res := r, server := d\<rparr>)"
      "db_ok hv t (s\<lparr>mallocs := ms, res := r, server := d\<rparr>) (m(k \<mapsto> v))"
    using set_value_spec [OF P S(3) len(2) v(1) len(1)] by blast
  let ?s1 = "s\<lparr>mallocs := ms, res := r, server := d\<rparr>"
  have set: "req_set D P k v s = (Ret OK, ?s1)"
    using w(1) v(2) S(2)
    by (simp add: req_set_def Let_def bnd_run status_getters(1) [OF S(1)] get_caching_status_run)
  have view: "cache_view D tn ?s1 k = Some (Present old)" and ok: "cache_ok D tn ?s1"
    using old S(6) [OF R] state_frames(1,2) [of ?s1 s D tn] by simp_all
  obtain b where b: "check_hash_table D tn k ?s1 = (Ret (Ptr b, True), ?s1)" "read_cstr b = Some old"
    using check_hash_table_spec [OF ok k(2)] view by auto
  have "R = GET_CACHE \<or> R = ONLY_CACHE \<or> R = DEFFER_DUMP" using R by (cases R) auto
  moreover have "strlen k + 1 < KEY_SIZE" using key_fits [OF k(1)] k(2) by simp
  moreover have "status_ok t tn ?s1" using S(1) by (simp add: status_ok_def)
  ultimately have get: "req_get D P k (NULL, 0) ?s1 = (Ret (OK, Ptr old, strlen old + 1), ?s1)"
    using S(2) b
    by (auto simp: req_get_def Let_def bnd_run status_getters get_caching_status_run ret_run deref_run)
  have "run_requests (run_request (req_get D P) (req_set D P) (req_del D P)) [Set k v, Get k] s =
      (Ret [(OK, NULL), (OK, Ptr old)], ?s1)"
    by (simp add: bnd_run ret_run set get)
  then show ?thesis using w(2) by (auto simp: db_ok_def)
qed

end
