(* ===== verification/Postgres_Reqv_Converter.thy ===== *)
theory Postgres_Reqv_Converter
  imports Prelude
begin

text \<open>
  \<^verbatim>\<open>postgres_reqv_converter/postgres_reqv_converter.c\<close>: from the proxy's internal reply (one type
  byte, then the payload) to a RESP frame.  A function returns its C result with the two out
  parameters: the code (0 or -1), the buffer \<^verbatim>\<open>*answer\<close>  and \<^verbatim>\<open>*size_answer\<close>.
  The abstract side is the datatype \<open>resp\<close> of RESP replies with its encoding.
\<close>

type_synonym reply_out = "int \<times> buffer ptr \<times> int"

section \<open>The RESP replies, abstractly\<close>

datatype resp =
  Simple_String string
| Error_Reply string
| Integer nat
| Bulk_String string
| Nil_Bulk

fun resp_encode :: "resp \<Rightarrow> string" where
  "resp_encode (Simple_String s) = ''+'' @ s @ CRLF"
| "resp_encode (Error_Reply s) = ''-ERR '' @ s @ CRLF"
| "resp_encode (Integer n) = '':'' @ dec n @ CRLF"
| "resp_encode (Bulk_String s) = ''$'' @ dec (length s) @ CRLF @ s @ CRLF"
| "resp_encode Nil_Bulk = ''$-1'' @ CRLF"

section \<open>The converter\<close>

definition CreateSimplStr :: "buffer \<Rightarrow> int \<Rightarrow> ('e c_env_scheme, reply_out) prog" where
  "CreateSimplStr reqv size_reqv =
     (let count_shell_sym = 3;
          size_reqv_data = size_reqv - 2;
          size_answer = size_reqv_data + count_shell_sym
      in bnd (malloc size_answer) (\<lambda>ans.
         case ans of
           NULL \<Rightarrow> sq (ereport_ERROR ''ERROR MALLOC CreateSimplStr answer'')
                     (ret (-1, NULL, size_answer))
         | Ptr b \<Rightarrow>
             bnd (put b 0 ''+'') (\<lambda>b.
             bnd (memcpy b 1 reqv 1 size_reqv_data) (\<lambda>b.
             bnd (put b (size_answer - 2) CRLF) (\<lambda>b.
             ret (0, Ptr b, size_answer))))))"

text \<open>\<^verbatim>\<open>snprintf(buf, n, ..)\<close>: the count it returns, and the bytes it leaves in a block of size \<open>n\<close>.\<close>

definition snprintf_into :: "nat \<Rightarrow> string \<Rightarrow> int \<times> buffer" where
  "snprintf_into n out =
     (int (length out),
      cells (take (n - 1) out) @ [Some NUL] @ replicate (n - 1 - length out) None)"

definition CreateStr :: "buffer \<Rightarrow> int \<Rightarrow> ('e c_env_scheme, reply_out) prog" where
  "CreateStr reqv size_reqv =
     (let size_reqv_data = (if size_reqv = 1 then 0 else size_reqv - 2);
          written = (if size_reqv_data = 0
                     then (2, cells ''-1'' @ replicate 18 None)
                     else snprintf_into 20 (dec_int size_reqv_data));
          count_write_sym = fst written;
          size = snd written;
          count_shell_sym = (if size_reqv_data = 0 then 1 + count_write_sym + 2
                             else 1 + count_write_sym + 2 + 2);
          size_answer = size_reqv_data + count_shell_sym
      in bnd (malloc size_answer) (\<lambda>ans.
         case ans of
           NULL \<Rightarrow> ret (-1, NULL, size_answer)
         | Ptr b \<Rightarrow>
             bnd (put b 0 ''$'') (\<lambda>b.
             bnd (memcpy b 1 size 0 count_write_sym) (\<lambda>b.
             bnd (put b (1 + count_write_sym) [CR]) (\<lambda>b.
             bnd (put b (1 + count_write_sym + 1) [LF]) (\<lambda>b.
             if size_reqv_data \<noteq> 0
             then bnd (memcpy b (1 + count_write_sym + 2) reqv 1 size_reqv_data) (\<lambda>b.
                  bnd (put b (size_answer - 2) CRLF) (\<lambda>b.
                  ret (0, Ptr b, size_answer)))
             else ret (0, Ptr b, size_answer)))))))"

definition CreateInt :: "buffer \<Rightarrow> int \<Rightarrow> ('e c_env_scheme, reply_out) prog" where
  "CreateInt reqv size_reqv =
     (let count_shell_sym = 3;
          size_reqv_data = size_reqv - 1;
          size_answer = size_reqv_data + count_shell_sym
      in bnd (malloc size_answer) (\<lambda>ans.
         case ans of
           NULL \<Rightarrow> ret (-1, NULL, size_answer)
         | Ptr b \<Rightarrow>
             bnd (put b 0 '':'') (\<lambda>b.
             bnd (memcpy b 1 reqv 1 size_reqv_data) (\<lambda>b.
             bnd (put b (size_answer - 2) CRLF) (\<lambda>b.
             ret (0, Ptr b, size_answer))))))"

definition CreateErr :: "buffer \<Rightarrow> int \<Rightarrow> ('e c_env_scheme, reply_out) prog" where
  "CreateErr reqv size_reqv =
     (let size_answer = 5 + size_reqv + 2 - 1
      in bnd (malloc size_answer) (\<lambda>ans.
         case ans of
           NULL \<Rightarrow> sq (ereport_ERROR ''Couldn't malloc'') (ret (-1, NULL, size_answer))
         | Ptr b \<Rightarrow>
             bnd (put b 0 ''-ERR '') (\<lambda>b.
             bnd (memcpy b 5 reqv 1 size_reqv) (\<lambda>b.
             bnd (put b (size_answer - 2) CRLF) (\<lambda>b.
             ret (0, Ptr b, size_answer))))))"

text \<open>The dispatcher reads \<^verbatim>\<open>reqv[0]\<close> first: a NULL \<^verbatim>\<open>pg_answer\<close> is a null dereference here.  The
  out parameters stay what they were (\<open>answer\<close>, \<open>size_answer\<close>) when no case matches.\<close>

definition define_type_req ::
    "buffer ptr \<Rightarrow> buffer ptr \<Rightarrow> int \<Rightarrow> int \<Rightarrow> ('e c_env_scheme, reply_out) prog" where
  "define_type_req reqv answer size_reqv size_answer =
     bnd (deref reqv) (\<lambda>r.
     bnd (peek r 0) (\<lambda>c.
     if c = Some (CHR 0x00) then CreateSimplStr r size_reqv
     else if c = Some (CHR 0x01) then CreateErr r size_reqv
     else if c = Some (CHR 0x02) then CreateInt r size_reqv
     else if c = Some (CHR 0x03) then CreateStr r size_reqv
     else ret (-1, answer, size_answer)))"

section \<open>Each frame, byte for byte\<close>

lemma blit_frame:
  assumes "length pre = d" "length mid = length bs"
  shows "blit (pre @ mid @ post) d bs = pre @ bs @ post"
  using assms by (simp add: blit_def)

lemma define_type_req_simple:
  assumes "mallocs_ok s" and "length msg < 2 ^ 31"
  shows "define_type_req (Ptr (cells (CHR 0x00 # msg @ [NUL]))) a (int (length msg) + 2) n s =
         (Ret (0, Ptr (cells (resp_encode (Simple_String msg))), int (length msg) + 3),
          s\<lparr>mallocs := tl (mallocs s)\<rparr>)"
  using assms
  by (simp add: define_type_req_def CreateSimplStr_def Let_def run blit_def nat_add_distrib)

lemma define_type_req_error:
  assumes "mallocs_ok s" and "length msg < 2 ^ 31" and "junk \<noteq> []"
  shows "define_type_req (Ptr (cells (CHR 0x01 # msg) @ junk)) a (int (length msg) + 1) n s =
         (Ret (0, Ptr (cells (resp_encode (Error_Reply msg))), int (length msg) + 7),
          s\<lparr>mallocs := tl (mallocs s)\<rparr>)"
  using assms
  by (cases junk)
     (simp_all add: define_type_req_def CreateErr_def Let_def run blit_def nat_add_distrib take_Cons')

lemma define_type_req_integer:
  assumes "mallocs_ok s" and "length (dec k) < 2 ^ 31"
  shows "define_type_req (Ptr (cells (CHR 0x02 # dec k))) a (int (length (dec k)) + 1) n s =
         (Ret (0, Ptr (cells (resp_encode (Integer k))), int (length (dec k)) + 3),
          s\<lparr>mallocs := tl (mallocs s)\<rparr>)"
  using assms
  by (simp add: define_type_req_def CreateInt_def Let_def run blit_def nat_add_distrib)

lemma define_type_req_nil:
  assumes "mallocs_ok s"
  shows "define_type_req (Ptr [Some (CHR 0x03)]) a 1 n s =
         (Ret (0, Ptr (cells (resp_encode Nil_Bulk)), 5), s\<lparr>mallocs := tl (mallocs s)\<rparr>)"
  using assms
  by (simp add: define_type_req_def CreateStr_def Let_def run blit_def)

lemma define_type_req_bulk:
  assumes "mallocs_ok s" and "v \<noteq> []" and "length v < 2 ^ 31 - 20"
  shows "define_type_req (Ptr (cells (CHR 0x03 # v @ [NUL]))) a (int (length v) + 2) n s =
         (Ret (0, Ptr (cells (resp_encode (Bulk_String v))),
               int (length v + length (dec (length v)) + 5)),
          s\<lparr>mallocs := tl (mallocs s)\<rparr>)"
proof -
  have "length (dec (length v)) \<le> 10"
    using assms(3) by (intro length_dec) auto
  moreover have "take 19 (dec (length v)) = dec (length v)"
    using calculation by simp
  ultimately show ?thesis using assms
    by (simp add: define_type_req_def CreateStr_def Let_def run blit_def nat_add_distrib
        snprintf_into_def dec_int_def take_Cons)
qed

end
