(* ===== verification/Redis_Reqv_Converter.thy ===== *)
theory Redis_Reqv_Converter
  imports Send_Req_Postgres Postgres_Reqv_Converter
begin

text \<open>
  \<^verbatim>\<open>redis_reqv_converter/redis_reqv_converter.c\<close>: a parsed command to a request of the request layer,
  and its result to the internal reply (one type byte, then the payload) that
  \<^verbatim>\<open>postgres_reqv_converter\<close> turns into RESP.  The abstract side is \<open>command_spec\<close>: what each command
  answers, as a RESP reply, and what it does to the map of keys and values.
\<close>

section \<open>Arguments\<close>

text \<open>\<^verbatim>\<open>command_argv\<close> is the parser's array of \<^verbatim>\<open>char*\<close>; \<open>arg_at\<close> is \<^verbatim>\<open>command_argv[i]\<close> and what it
  points to, \<open>cstr_at\<close> reads it as a C string.\<close>

type_synonym args = "buffer ptr option list"

definition arg_at :: "args \<Rightarrow> int \<Rightarrow> ('s, buffer) prog" where
  "arg_at argv i =
     (if 0 \<le> i \<and> i < int (length argv)
      then (case argv ! nat i of None \<Rightarrow> flt Uninitialised | Some p \<Rightarrow> deref p)
      else flt Out_Of_Bounds)"

definition as_cstr :: "buffer \<Rightarrow> ('s, string) prog" where
  "as_cstr b = (case read_cstr b of None \<Rightarrow> flt Uninitialised | Some v \<Rightarrow> ret v)"

definition cstr_at :: "args \<Rightarrow> int \<Rightarrow> ('s, string) prog" where
  "cstr_at argv i = bnd (arg_at argv i) as_cstr"

definition big_char :: "char \<Rightarrow> char" where
  "big_char c =
     (if 97 \<le> (of_char c :: nat) \<and> (of_char c :: nat) \<le> 122 then char_of ((of_char c :: nat) - 32) else c)"

fun to_big_case :: "buffer \<Rightarrow> buffer" where
  "to_big_case [] = []"
| "to_big_case (None # b) = None # b"
| "to_big_case (Some c # b) = (if c = NUL then Some c # b else Some (big_char c) # to_big_case b)"

section \<open>The commands\<close>

datatype ErrorType = ERROR_COMMAND_NOT_FOUND | ERROR_WRONG_ARGUMENTS_COUNT

abbreviation (input) MAX_ERROR_SIZE :: int where "MAX_ERROR_SIZE \<equiv> 256"

text \<open>Every command returns its code and the out parameters \<^verbatim>\<open>*pg_answer\<close> and \<^verbatim>\<open>*size_pg_answer\<close>, whose
  old values are its last argument.  The \<^verbatim>\<open>char* value\<close> of \<open>process_get\<close> starts uninitialised.\<close>

type_synonym out = "buffer ptr \<times> int"

definition process_get :: "'h dynahash \<Rightarrow> 'd libpq \<Rightarrow> string \<Rightarrow> out \<Rightarrow>
    (('h, 'd, 'e) log_st_scheme, int \<times> out) prog" where
  "process_get D P key out =
     bnd (req_get D P key (Dangling, 0)) (\<lambda>(r, value, length_value).
     case r of
       NON \<Rightarrow>
         bnd (malloc 1) (\<lambda>p.
         if p = NULL then sq (ereport_ERROR ''ERROR MALLOC'') (ret (-1, NULL, snd out))
         else bnd (deref p) (\<lambda>b. bnd (put b 0 [CHR 0x03]) (\<lambda>b. ret (0, Ptr b, 1))))
     | ERR_REQ \<Rightarrow> sq (ereport_ERROR ''IN process_get: GET err with key'') (ret (-1, out))
     | OK \<Rightarrow>
         let size = length_value + 1 in
         bnd (malloc size) (\<lambda>p.
         if p = NULL then sq (ereport_ERROR ''can't malloc process_get: one pg_answer'') (ret (-1, NULL, size))
         else
           bnd (deref p) (\<lambda>b.
           bnd (put b 0 [CHR 0x03]) (\<lambda>b.
           bnd (deref value) (\<lambda>v.
           bnd (memcpy b 1 (cells v @ [Some NUL]) 0 length_value) (\<lambda>b.
           ret (0, Ptr b, size)))))))"

definition process_set :: "'h dynahash \<Rightarrow> 'd libpq \<Rightarrow> string \<Rightarrow> string \<Rightarrow> out \<Rightarrow>
    (('h, 'd, 'e) log_st_scheme, int \<times> out) prog" where
  "process_set D P key value out =
     bnd (req_set D P key value) (\<lambda>r.
     if r = ERR_REQ then sq (ereport_ERROR ''IN process_set: SET err with key'') (ret (-1, out))
     else
       bnd (malloc 4) (\<lambda>p.
       if p = NULL then sq (ereport_ERROR ''ERROR MALLOC process_set: pg_answer'') (ret (-1, NULL, snd out))
       else
         bnd (deref p) (\<lambda>b. bnd (put b 0 ([NUL] @ ''OK'' @ [NUL])) (\<lambda>b. ret (0, Ptr b, 4)))))"

text \<open>The loop of \<^verbatim>\<open>process_del\<close> over \<open>n\<close> keys from index \<open>i\<close> on; \<open>None\<close> is the return of -1.\<close>

fun del_loop :: "'h dynahash \<Rightarrow> 'd libpq \<Rightarrow> nat \<Rightarrow> int \<Rightarrow> args \<Rightarrow> int \<Rightarrow>
    (('h, 'd, 'e) log_st_scheme, int option) prog" where
  "del_loop D P 0 i argv successful_deletions = ret (Some successful_deletions)"
| "del_loop D P (Suc n) i argv successful_deletions =
     bnd (cstr_at argv i) (\<lambda>key.
     bnd (req_del D P key) (\<lambda>r.
     let successful_deletions = (if r = OK then successful_deletions + 1 else successful_deletions) in
     if r = ERR_REQ then sq (ereport_ERROR ''Error during deletion of key'') (ret None)
     else del_loop D P n (i + 1) argv successful_deletions))"

definition process_del :: "'h dynahash \<Rightarrow> 'd libpq \<Rightarrow> int \<Rightarrow> args \<Rightarrow> out \<Rightarrow>
    (('h, 'd, 'e) log_st_scheme, int \<times> out) prog" where
  "process_del D P command_argc command_argv out =
     bnd (del_loop D P (nat (command_argc - 1)) 1 command_argv 0) (\<lambda>r.
     case r of
       None \<Rightarrow> ret (-1, out)
     | Some successful_deletions \<Rightarrow>
         let (count_write_sym, num) = snprintf_into 20 (dec_int successful_deletions) in
         if count_write_sym < 0 then sq (ereport_ERROR ''snprintf err'') (ret (-1, out))
         else
           let size = count_write_sym + 1 in
           bnd (malloc size) (\<lambda>p.
           if p = NULL then sq (ereport_ERROR ''ERROR MALLOC process_del: pg_answer'') (ret (-1, NULL, size))
           else
             bnd (deref p) (\<lambda>b.
             bnd (put b 0 [CHR 0x02]) (\<lambda>b.
             bnd (memcpy b 1 num 0 count_write_sym) (\<lambda>b.
             ret (0, Ptr b, size))))))"

definition process_ping :: "('e c_env_scheme, int \<times> out) prog" where
  "process_ping =
     bnd (malloc 6) (\<lambda>p.
     if p = NULL then sq (ereport_ERROR ''ERROR MALLOC process_ping: pg_answer '') (ret (-1, NULL, 6))
     else bnd (deref p) (\<lambda>b. bnd (put b 0 ([NUL] @ ''PONG'' @ [NUL])) (\<lambda>b. ret (0, Ptr b, 6))))"

text \<open>A plug; the dispatcher answers COMMAND itself and never calls it.\<close>

definition process_command :: "int \<Rightarrow> args \<Rightarrow> ('s, int) prog" where
  "process_command command_argc command_argv = ret 0"

text \<open>The result of \<^verbatim>\<open>malloc\<close> is written to without a test.\<close>

definition process_error :: "ErrorType \<Rightarrow> ('e c_env_scheme, int \<times> out) prog" where
  "process_error type =
     (let error_message = (case type of
            ERROR_COMMAND_NOT_FOUND \<Rightarrow> ''unknown command''
          | ERROR_WRONG_ARGUMENTS_COUNT \<Rightarrow> ''syntax error'');
          size = 1 + int (length error_message) in
      bnd (malloc MAX_ERROR_SIZE) (\<lambda>p.
      bnd (deref p) (\<lambda>b.
      bnd (put b 0 [CHR 0x01]) (\<lambda>b.
      bnd (put b 1 error_message) (\<lambda>b.
      ret (0, Ptr b, size))))))"

definition process_redis_to_postgres :: "'h dynahash \<Rightarrow> 'd libpq \<Rightarrow> int \<Rightarrow> args \<Rightarrow> out \<Rightarrow>
    (('h, 'd, 'e) log_st_scheme, args \<times> int \<times> out) prog" where
  "process_redis_to_postgres D P command_argc command_argv out =
     (if command_argc = 0 then ret (command_argv, -1, out)
      else
        bnd (arg_at command_argv 0) (\<lambda>b.
        let argv = command_argv[0 := Some (Ptr (to_big_case b))] in
        bnd (cstr_at argv 0) (\<lambda>name.
        bnd (if name = ''GET'' then
               if command_argc < 2 then process_error ERROR_WRONG_ARGUMENTS_COUNT
               else bnd (cstr_at argv 1) (\<lambda>key. process_get D P key out)
             else if name = ''SET'' then
               if command_argc \<noteq> 3 then process_error ERROR_WRONG_ARGUMENTS_COUNT
               else bnd (cstr_at argv 1) (\<lambda>key. bnd (cstr_at argv 2) (\<lambda>value. process_set D P key value out))
             else if name = ''DEL'' then
               if command_argc < 2 then process_error ERROR_WRONG_ARGUMENTS_COUNT
               else process_del D P command_argc argv out
             else if name = ''COMMAND'' then ret (0, out)
             else if name = ''PING'' then process_ping
             else process_error ERROR_COMMAND_NOT_FOUND)
        (\<lambda>r. ret (argv, r)))))"

section \<open>What each command answers and does, abstractly\<close>

fun del_all :: "string list \<Rightarrow> (string \<rightharpoonup> string) \<Rightarrow> nat \<times> (string \<rightharpoonup> string)" where
  "del_all [] m = (0, m)"
| "del_all (k # ks) m =
     (let (n, m') = del_all ks (m(k := None)) in (if m k = None then n else Suc n, m'))"

definition get_answer :: "string option \<Rightarrow> resp" where
  "get_answer w = (case w of None \<Rightarrow> Nil_Bulk | Some v \<Rightarrow> Bulk_String v)"

text \<open>\<open>None\<close>: no reply is specified (COMMAND leaves the out parameters as they were).\<close>

definition command_spec :: "string \<Rightarrow> string list \<Rightarrow> (string \<rightharpoonup> string) \<Rightarrow> (resp \<times> (string \<rightharpoonup> string)) option" where
  "command_spec cmd as m =
     (let name = map big_char cmd in
      if name = ''GET'' then
        (case as of [] \<Rightarrow> Some (Error_Reply ''syntax error'', m) | k # _ \<Rightarrow> Some (get_answer (m k), m))
      else if name = ''SET'' then
        (case as of [k, v] \<Rightarrow> Some (Simple_String ''OK'', m(k \<mapsto> v))
         | _ \<Rightarrow> Some (Error_Reply ''syntax error'', m))
      else if name = ''DEL'' then
        (if as = [] then Some (Error_Reply ''syntax error'', m)
         else let (n, m') = del_all as m in Some (Integer n, m'))
      else if name = ''COMMAND'' then None
      else if name = ''PING'' then Some (Simple_String ''PONG'', m)
      else Some (Error_Reply ''unknown command'', m))"

text \<open>Commands whose keys and values the service can keep.\<close>

definition command_ok :: "string \<Rightarrow> dump_status \<Rightarrow> string \<Rightarrow> string list \<Rightarrow> bool" where
  "command_ok t R cmd as \<longleftrightarrow>
     (let name = map big_char cmd in
      NUL \<notin> set cmd \<and> int (length as) < 2 ^ 31 - 1 \<and> name \<noteq> ''COMMAND'' \<and>
      (name = ''GET'' \<and> as \<noteq> [] \<longrightarrow> key_ok t (hd as)) \<and>
      (name = ''SET'' \<and> length as = 2 \<longrightarrow> key_ok t (as ! 0) \<and> storable R (as ! 0) (as ! 1)) \<and>
      (name = ''DEL'' \<longrightarrow> (\<forall>k \<in> set as. key_ok t k)))"

text \<open>The internal reply of a RESP reply.\<close>

fun internal :: "resp \<Rightarrow> out \<Rightarrow> bool" where
  "internal (Simple_String msg) out \<longleftrightarrow> out = (Ptr (cells (CHR 0x00 # msg @ [NUL])), int (length msg) + 2)"
| "internal (Error_Reply msg) out \<longleftrightarrow>
     (\<exists>junk. junk \<noteq> [] \<and> out = (Ptr (cells (CHR 0x01 # msg) @ junk), int (length msg) + 1))"
| "internal (Integer n) out \<longleftrightarrow> out = (Ptr (cells (CHR 0x02 # dec n)), int (length (dec n)) + 1)"
| "internal (Bulk_String v) out \<longleftrightarrow> out = (Ptr (cells (CHR 0x03 # v @ [NUL])), int (length v) + 2)"
| "internal Nil_Bulk out \<longleftrightarrow> out = (Ptr [Some (CHR 0x03)], 1)"

fun resp_fits :: "resp \<Rightarrow> bool" where
  "resp_fits (Simple_String msg) = (length msg < 2 ^ 31)"
| "resp_fits (Error_Reply msg) = (length msg < 2 ^ 31)"
| "resp_fits (Integer n) = (length (dec n) < 2 ^ 31)"
| "resp_fits (Bulk_String v) = (v \<noteq> [] \<and> length v < 2 ^ 31 - 20)"
| "resp_fits Nil_Bulk = True"

lemma define_type_req_internal:
  assumes "internal r out" and "resp_fits r" and "mallocs_ok s"
  shows "define_type_req (fst out) a (snd out) n s =
    (Ret (0, Ptr (cells (resp_encode r)), int (length (resp_encode r))), s\<lparr>mallocs := tl (mallocs s)\<rparr>)"
proof (cases r)
  case (Error_Reply msg)
  then show ?thesis
    using assms define_type_req_error [OF assms(3), of msg] by (auto simp: nat_add_distrib)
qed (use assms define_type_req_simple [OF assms(3)] define_type_req_integer [OF assms(3)]
      define_type_req_bulk [OF assms(3)] define_type_req_nil [OF assms(3)] in auto)

section \<open>Arguments as strings\<close>

definition arg_array :: "string list \<Rightarrow> args" where
  "arg_array as = map (\<lambda>a. Some (Ptr (cells a @ [Some NUL]))) as"

lemma cstr_at_array [run]:
  "0 \<le> i \<Longrightarrow> i < int (length as) \<Longrightarrow> NUL \<notin> set (as ! nat i) \<Longrightarrow>
   cstr_at (arg_array as) i s = (Ret (as ! nat i), s)"
  by (simp add: cstr_at_def arg_at_def arg_array_def as_cstr_def run nat_less_iff)

lemma big_char_NUL [simp]: "big_char c = NUL \<longleftrightarrow> c = NUL"
proof (cases "97 \<le> (of_char c :: nat) \<and> (of_char c :: nat) \<le> 122")
  case True
  then have "(of_char (big_char c) :: nat) = of_char c - 32"
    by (auto simp: big_char_def intro!: mod_less)
  then show ?thesis using True by (auto dest: arg_cong [of _ _ "of_char :: char \<Rightarrow> nat"])
next
  case False
  show ?thesis by (simp only: big_char_def False if_False)
qed

lemma to_big_case_cstr [simp]:
  "NUL \<notin> set a \<Longrightarrow> to_big_case (cells a @ Some NUL # b) = cells (map big_char a) @ Some NUL # b"
  by (induction a) auto

lemma to_big_case_reads: "read_cstr (to_big_case b) = map_option (map big_char) (read_cstr b)"
  by (induction b rule: to_big_case.induct) (auto simp: option.map_comp comp_def)

section \<open>The commands do what they say\<close>

lemma service_malloc:
  assumes "service D hv t tn R s m u"
  shows "service D hv t tn R (s\<lparr>mallocs := tl (mallocs s)\<rparr>) m u" and "mallocs_ok s"
proof -
  have db: "db_ok hv t s m" using serviceD(3) [OF assms] .
  then have "db_ok hv t (s\<lparr>mallocs := tl (mallocs s)\<rparr>) m" by (simp add: db_ok_def)
  then show "service D hv t tn R (s\<lparr>mallocs := tl (mallocs s)\<rparr>) m u"
    by (intro service_frame [OF assms]) (simp_all add: kept_def)
  show "mallocs_ok s" using db by (simp add: db_ok_def)
qed

lemma kept_malloc: "kept s s' \<Longrightarrow> kept s (s'\<lparr>mallocs := ms\<rparr>)"
  by (simp add: kept_def)

text \<open>A command's result: code 0, an internal reply, and the service at the new map.\<close>

definition answers_with :: "'h dynahash \<Rightarrow> ('d \<Rightarrow> string \<Rightarrow> (string \<rightharpoonup> string) option) \<Rightarrow> string \<Rightarrow> int \<Rightarrow>
    dump_status \<Rightarrow> ('h, 'd, 'e) log_st_scheme \<Rightarrow> resp \<Rightarrow> (string \<rightharpoonup> string) \<Rightarrow>
    (int \<times> out) outcome \<times> ('h, 'd, 'e) log_st_scheme \<Rightarrow> bool" where
  "answers_with D hv t tn R s r u x \<longleftrightarrow>
     (\<exists>out s' m. x = (Ret (0, out), s') \<and> internal r out \<and> service D hv t tn R s' m u \<and> kept s s')"

lemma process_get_spec:
  assumes "dynahash_laws D" and "hstore_laws P hv" and "table_ok t" and "key_ok t k"
    and s: "service D hv t tn R s m u"
  shows "answers_with D hv t tn R s (get_answer (u k)) u (process_get D P k out s)"
proof -
  obtain r s' where g: "req_get D P k (Dangling, 0) s = (Ret r, s')" "replies (u k) r"
      "service D hv t tn R s' m u" "kept s s'"
    using req_get_spec [OF assms] by blast
  note ok = service_malloc [OF g(3)]
  show ?thesis
  proof (cases "u k")
    case None
    then obtain l where "r = (NON, NULL, l)" using g(2) by (cases r) auto
    then show ?thesis
      using None g(1) ok kept_malloc [OF g(4)]
      by (auto simp: answers_with_def process_get_def run get_answer_def blit_def
          intro!: exI [of _ "s'\<lparr>mallocs := tl (mallocs s')\<rparr>"])
  next
    case (Some v)
    then have "strlen v < 2 ^ 28" using serviceD(5) [OF s] by (simp add: stored_ok_def)
    moreover have "r = (OK, Ptr v, strlen v + 1)" using Some g(2) by simp
    ultimately show ?thesis
      using Some g(1) ok kept_malloc [OF g(4)]
      by (auto simp: answers_with_def process_get_def run get_answer_def blit_def Let_def strlen_def
          nat_add_distrib intro!: exI [of _ "s'\<lparr>mallocs := tl (mallocs s')\<rparr>"])
  qed
qed

lemma process_set_spec:
  assumes "dynahash_laws D" and "hstore_laws P hv" and "table_ok t" and "key_ok t k"
    and "storable R k v" and s: "service D hv t tn R s m u"
  shows "answers_with D hv t tn R s (Simple_String ''OK'') (u(k \<mapsto> v)) (process_set D P k v out s)"
proof -
  obtain s' m' where g: "req_set D P k v s = (Ret OK, s')" "service D hv t tn R s' m' (u(k \<mapsto> v))" "kept s s'"
    using req_set_spec [OF assms] by blast
  then show ?thesis
    using service_malloc [OF g(2)] kept_malloc [OF g(3)]
    by (auto simp: answers_with_def process_set_def run blit_def
        intro!: exI [of _ "s'\<lparr>mallocs := tl (mallocs s')\<rparr>"])
qed

lemma del_loop_spec:
  assumes laws: "dynahash_laws D" "hstore_laws P hv" "table_ok t"
    and "service D hv t tn R s m u" and "\<forall>k \<in> set (drop i as). key_ok t k" and "i + n = length as"
  shows "\<exists>s' m'. del_loop D P n (int i) (arg_array as) (int c) s =
      (Ret (Some (int (c + fst (del_all (drop i as) u)))), s') \<and>
    service D hv t tn R s' m' (snd (del_all (drop i as) u)) \<and> kept s s'"
  using assms(4-)
proof (induction n arbitrary: i s m u c)
  case 0
  then show ?case by (auto simp: run)
next
  case (Suc n)
  then have i: "i < length as" and drop: "drop i as = as ! i # drop (Suc i) as"
    by (auto simp: Cons_nth_drop_Suc)
  have k: "key_ok t (as ! i)" using Suc.prems(2) drop by simp
  have key: "cstr_at (arg_array as) (int i) s = (Ret (as ! i), s)"
    using cstr_at_array [of "int i" as] i k by (simp add: key_ok_def sql_safe_NUL)
  obtain s1 m1 where d: "req_del D P (as ! i) s = (Ret (if u (as ! i) = None then NON else OK), s1)"
      "service D hv t tn R s1 m1 (u(as ! i := None))" "kept s s1"
    using req_del_spec [OF laws k Suc.prems(1)] by blast
  have rest: "\<forall>k \<in> set (drop (Suc i) as). key_ok t k" "Suc i + n = length as"
    using Suc.prems(2,3) drop by simp_all
  let ?c = "if u (as ! i) = None then c else Suc c"
  obtain s2 m2 where s2: "del_loop D P n (int (Suc i)) (arg_array as) (int ?c) s1 =
      (Ret (Some (int (?c + fst (del_all (drop (Suc i) as) (u(as ! i := None)))))), s2)"
      "service D hv t tn R s2 m2 (snd (del_all (drop (Suc i) as) (u(as ! i := None))))" "kept s1 s2"
    using Suc.IH [OF d(2) rest] by blast
  have "del_loop D P (Suc n) (int i) (arg_array as) (int c) s =
      del_loop D P n (int (Suc i)) (arg_array as) (int ?c) s1"
    using key d(1) by (simp add: bnd_run Let_def add.commute)
  moreover have "c + fst (del_all (drop i as) u) = ?c + fst (del_all (drop (Suc i) as) (u(as ! i := None)))"
      "snd (del_all (drop i as) u) = snd (del_all (drop (Suc i) as) (u(as ! i := None)))"
    by (simp_all add: drop Let_def split: prod.splits)
  ultimately show ?case
    using s2 kept_trans [OF d(3) s2(3)] by metis
qed

lemma del_all_bound: "fst (del_all ks u) \<le> length ks"
proof (induction ks arbitrary: u)
  case (Cons k ks)
  obtain n m where del: "del_all ks (u(k := None)) = (n, m)" by (cases "del_all ks (u(k := None))")
  have "n \<le> length ks" using Cons.IH [of "u(k := None)"] unfolding del by simp
  then show ?case by (simp add: del)
qed simp

lemma process_del_spec:
  assumes laws: "dynahash_laws D" "hstore_laws P hv" "table_ok t"
    and s: "service D hv t tn R s m u" and keys: "\<forall>k \<in> set as. key_ok t k"
    and len: "int (length as) < 2 ^ 31 - 1"
  shows "answers_with D hv t tn R s (Integer (fst (del_all as u))) (snd (del_all as u))
    (process_del D P (int (length as) + 1) (arg_array (cmd # as)) out s)"
proof -
  let ?n = "fst (del_all as u)"
  obtain s' m' where d: "del_loop D P (length as) 1 (arg_array (cmd # as)) 0 s = (Ret (Some (int ?n)), s')"
      "service D hv t tn R s' m' (snd (del_all as u))" "kept s s'"
    using del_loop_spec [OF laws s, of 1 "cmd # as" "length as" 0] keys by auto
  have "int ?n < 10 ^ 10" using del_all_bound [of as u] len by simp
  then have num: "length (dec ?n) \<le> 10" by (intro length_dec) simp_all
  then have "take 19 (dec ?n) = dec ?n" by simp
  then show ?thesis
    using d(1) service_malloc [OF d(2)] kept_malloc [OF d(3)] num
    by (auto simp: answers_with_def process_del_def run snprintf_into_def dec_int_def Let_def blit_def
        nat_add_distrib intro!: exI [of _ "s'\<lparr>mallocs := tl (mallocs s')\<rparr>"])
qed

lemma process_ping_spec:
  assumes s: "service D hv t tn R s m u"
  shows "answers_with D hv t tn R s (Simple_String ''PONG'') u (process_ping s)"
  using service_malloc [OF s] kept_malloc [OF kept_refl]
  by (auto simp: answers_with_def process_ping_def run blit_def
      intro!: exI [of _ "s\<lparr>mallocs := tl (mallocs s)\<rparr>"])

lemma process_error_spec:
  assumes s: "service D hv t tn R s m u"
  shows "answers_with D hv t tn R s (Error_Reply (case e of
     ERROR_COMMAND_NOT_FOUND \<Rightarrow> ''unknown command'' | ERROR_WRONG_ARGUMENTS_COUNT \<Rightarrow> ''syntax error'')) u
     (process_error e s)"
  using service_malloc [OF s] kept_malloc [OF kept_refl]
  by (cases e)
     (auto simp: answers_with_def process_error_def run blit_def Let_def map_replicate
       intro!: exI [of _ "s\<lparr>mallocs := tl (mallocs s)\<rparr>"])

text \<open>The dispatcher: it reads its arguments as C strings and calls the command.\<close>

lemma arg_array_upper:
  assumes "NUL \<notin> set cmd"
  shows "arg_at (arg_array (cmd # as)) 0 s = (Ret (cells cmd @ [Some NUL]), s)"
    and "(arg_array (cmd # as))[0 := Some (Ptr (to_big_case (cells cmd @ [Some NUL])))] =
      arg_array (map big_char cmd # as)"
  using assms by (simp_all add: arg_at_def arg_array_def run)

lemma NUL_notin_upper: "NUL \<notin> set cmd \<Longrightarrow> NUL \<notin> set (map big_char cmd)"
  by (auto simp: image_iff dest: sym [of NUL])

lemma process_redis_to_postgres_spec:
  fixes s :: "('h, 'd, 'e) log_st_scheme"
  assumes laws: "dynahash_laws D" "hstore_laws P hv" "table_ok t" and s: "service D hv t tn R s m u"
    and ok: "command_ok t R cmd as" and spec: "command_spec cmd as u = Some (r, u')"
  shows "\<exists>res s'. process_redis_to_postgres D P (int (length as) + 1) (arg_array (cmd # as)) out s =
      (Ret (arg_array (map big_char cmd # as), res), s') \<and>
    answers_with D hv t tn R s r u' (Ret res, s')"
proof -
  let ?name = "map big_char cmd" and ?argv = "arg_array (map big_char cmd # as)"
  have cmd: "NUL \<notin> set cmd" and len: "int (length as) < 2 ^ 31 - 1" using ok by (auto simp: command_ok_def Let_def)
  have name: "cstr_at ?argv 0 s = (Ret ?name, s)"
    using cstr_at_array [of 0 "?name # as"] NUL_notin_upper [OF cmd] by simp
  define body :: "(('h, 'd, 'e) log_st_scheme, int \<times> out) prog" where "body =
       (if ?name = ''GET'' then
          if int (length as) + 1 < 2 then process_error ERROR_WRONG_ARGUMENTS_COUNT
          else bnd (cstr_at ?argv 1) (\<lambda>key. process_get D P key out)
        else if ?name = ''SET'' then
          if int (length as) + 1 \<noteq> 3 then process_error ERROR_WRONG_ARGUMENTS_COUNT
          else bnd (cstr_at ?argv 1) (\<lambda>key. bnd (cstr_at ?argv 2) (\<lambda>value. process_set D P key value out))
        else if ?name = ''DEL'' then
          if int (length as) + 1 < 2 then process_error ERROR_WRONG_ARGUMENTS_COUNT
          else process_del D P (int (length as) + 1) ?argv out
        else if ?name = ''COMMAND'' then ret (0, out)
        else if ?name = ''PING'' then process_ping
        else process_error ERROR_COMMAND_NOT_FOUND)"
  have go: "process_redis_to_postgres D P (int (length as) + 1) (arg_array (cmd # as)) out s =
      bnd body (\<lambda>x. ret (?argv, x)) s"
    by (simp add: process_redis_to_postgres_def body_def bnd_Ret [of "arg_at _ _", OF arg_array_upper(1) [OF cmd]]
        bnd_Ret [of "cstr_at _ _", OF name] Let_def arg_array_upper(2) [OF cmd] del: list.map map_map)
  have arg: "cstr_at ?argv (int i) s' = (Ret (as ! (i - 1)), s')"
    if "0 < i" "i \<le> length as" "key_ok t (as ! (i - 1)) \<or> sql_safe (as ! (i - 1))" for i s'
    using that cstr_at_array [of "int i" "?name # as" s'] by (auto simp: key_ok_def sql_safe_NUL nth_Cons')
  note err = process_error_spec [OF s, of ERROR_WRONG_ARGUMENTS_COUNT, simplified]
    process_error_spec [OF s, of ERROR_COMMAND_NOT_FOUND, simplified]
  note specs = spec [unfolded command_spec_def Let_def] and oks = ok [unfolded command_ok_def Let_def]
  consider (get) "?name = ''GET''" | (set) "?name = ''SET''" | (del) "?name = ''DEL''" | (ping) "?name = ''PING''"
    | (other) "?name \<notin> {''GET'', ''SET'', ''DEL'', ''PING'', ''COMMAND''}"
    using oks by auto
  then have "answers_with D hv t tn R s r u' (body s)"
  proof cases
    case get
    show ?thesis
    proof (cases as)
      case Nil
      then show ?thesis using get specs err by (simp add: body_def)
    next
      case (Cons k ks)
      then have k: "key_ok t k" and r: "r = get_answer (u k)" "u' = u" using get oks specs by auto
      have "cstr_at ?argv 1 s = (Ret k, s)" using arg [of 1 s] k Cons by simp
      then show ?thesis
        using process_get_spec [OF laws k s, of out] get Cons r by (simp add: body_def bnd_run)
    qed
  next
    case set
    show ?thesis
    proof (cases "length as = 2")
      case False
      then have "r = Error_Reply ''syntax error''" "u' = u"
        using set specs by (auto split: list.splits)
      then show ?thesis using False set err by (simp add: body_def)
    next
      case True
      then obtain k v where as: "as = [k, v]" by (auto simp: numeral_2_eq_2 length_Suc_conv)
      then have k: "key_ok t k" and v: "storable R k v" and r: "r = Simple_String ''OK''" "u' = u(k \<mapsto> v)"
        using set oks specs by auto
      have "cstr_at ?argv 1 s = (Ret k, s)" "cstr_at ?argv 2 s = (Ret v, s)"
        using arg [of 1 s] arg [of 2 s] k v as by (simp_all add: storable_def)
      then show ?thesis
        using process_set_spec [OF laws k v s, of out] set as r by (simp add: body_def bnd_run)
    qed
  next
    case del
    show ?thesis
    proof (cases "as = []")
      case True
      then show ?thesis using del specs err by (simp add: body_def)
    next
      case False
      then have "int (length as) + 1 \<ge> 2" by (cases as) auto
      moreover have "\<forall>k \<in> set as. key_ok t k" "r = Integer (fst (del_all as u))" "u' = snd (del_all as u)"
        using del oks specs False by (auto split: prod.splits)
      ultimately show ?thesis
        using process_del_spec [OF laws s _ len, of ?name out] del False by (simp add: body_def)
    qed
  next
    case ping
    then show ?thesis using specs process_ping_spec [OF s] by (simp add: body_def)
  next
    case other
    then show ?thesis using specs err by (auto simp: body_def)
  qed
  then show ?thesis unfolding go by (auto simp: answers_with_def run)
qed

end
