(* ===== verification/Work_With_Socket.thy ===== *)
theory Work_With_Socket
  imports Prelude
begin

text \<open>
  \<^verbatim>\<open>work_with_socket/work_with_socket.h\<close> and \<^verbatim>\<open>.c\<close>: the per-connection data and the incremental
  request parser.  \<open>parse_sym\<close> is one iteration of the parser's loop on one byte, \<open>parse_loop\<close>
  the loop of \<^verbatim>\<open>parse_cli_mes\<close> over the read buffer.  \<open>feed\<close> is the same automaton run over a
  list of bytes; the lemmas relate the two, show that the packet boundaries cannot be seen in the
  result, and that the automaton decodes the RESP encoding of every request it is meant for.
\<close>

section \<open>Data\<close>

abbreviation (input) BUFFER_SIZE :: int where "BUFFER_SIZE \<equiv> 200"

datatype Eread_status =
  ARRAY_WAIT | NUM_OR_MINUS_WAIT | NUM_WAIT | STRING_WAIT | START_STRING_WAIT | STR_SYM_WAIT | END

datatype Eexit_status = ERR | NOT_ALL | ALL_READ

record Tsocket_parsing =
  parsing_num :: int
  is_negative :: bool
  parsing_str :: "buffer ptr"
  size_str :: int
  cur_size_str :: int

record Tsocket_write_data =
  answer :: "buffer ptr"
  size_answer :: int

text \<open>\<open>argv\<close> is a heap array of \<^verbatim>\<open>char*\<close>; an entry is \<open>None\<close> while it is indeterminate.\<close>

record Tsocket_read_data =
  argv :: "buffer ptr option list ptr"
  argc :: int
  cur_count_argv :: int
  cur_buffer_size :: int
  parsing :: Tsocket_parsing
  read_buffer :: buffer
  read_status :: Eread_status
  exit_status :: Eexit_status

record Tsocket_data =
  write_data :: Tsocket_write_data
  read_data :: Tsocket_read_data

section \<open>The parser\<close>

text \<open>What one byte does to the loop: go on, return with ERR, or return with ALL.\<close>

datatype verdict = Go | Stop_Err | Stop_All

abbreviation (input) set_parsing ::
    "(Tsocket_parsing \<Rightarrow> Tsocket_parsing) \<Rightarrow> Tsocket_read_data \<Rightarrow> Tsocket_read_data" where
  "set_parsing f d \<equiv> d\<lparr>parsing := f (parsing d)\<rparr>"

definition push_digit :: "char \<Rightarrow> Tsocket_read_data \<Rightarrow> ('e c_env_scheme, Tsocket_read_data) prog" where
  "push_digit c d =
     bnd (chk_int (parsing_num (parsing d) * 10 + digit_val c)) (\<lambda>n.
     ret (set_parsing (\<lambda>p. p\<lparr>parsing_num := n\<rparr>) d))"

text \<open>The \<^verbatim>\<open>\r\<close> after a number: the number was the argument count when \<open>argc\<close> is still \<open>-1\<close>, else
  the length of the next string.\<close>

definition end_number :: "Tsocket_read_data \<Rightarrow> ('e c_env_scheme, verdict \<times> Tsocket_read_data) prog" where
  "end_number d =
     bnd (if is_negative (parsing d) then chk_int (parsing_num (parsing d) * -1)
          else ret (parsing_num (parsing d))) (\<lambda>n.
     let d = set_parsing (\<lambda>p. p\<lparr>parsing_num := n\<rparr>) d in
     if argc d = -1 then
       let d = d\<lparr>argc := n, cur_count_argv := 0, read_status := START_STRING_WAIT\<rparr> in
       bnd (malloc (n * 8)) (\<lambda>p.
       if p = NULL then ret (Stop_Err, d\<lparr>argv := NULL, exit_status := ERR\<rparr>)
       else ret (Go, set_parsing (\<lambda>p. p\<lparr>parsing_num := 0\<rparr>)
                       (d\<lparr>argv := Ptr (replicate (nat n) None)\<rparr>)))
     else
       let d = set_parsing (\<lambda>p. p\<lparr>size_str := n, cur_size_str := 0\<rparr>) d in
       bnd (chk_int (n + 1)) (\<lambda>m.
       bnd (malloc m) (\<lambda>p.
       let d = set_parsing (\<lambda>q. q\<lparr>parsing_str := p\<rparr>) (d\<lparr>read_status := STRING_WAIT\<rparr>) in
       if p = NULL then ret (Stop_Err, d\<lparr>exit_status := ERR\<rparr>)
       else ret (Go, set_parsing (\<lambda>p. p\<lparr>parsing_num := 0\<rparr>) d))))"

text \<open>Storing a pointer into \<^verbatim>\<open>data->argv[data->cur_count_argv]\<close>.\<close>

definition store_arg :: "buffer ptr \<Rightarrow> Tsocket_read_data \<Rightarrow> ('e c_env_scheme, Tsocket_read_data) prog" where
  "store_arg p d =
     bnd (deref (argv d)) (\<lambda>arr.
     if 0 \<le> cur_count_argv d \<and> cur_count_argv d < int (length arr)
     then ret (d\<lparr>argv := Ptr (arr[nat (cur_count_argv d) := Some p])\<rparr>)
     else flt Out_Of_Bounds)"

definition string_sym :: "char \<Rightarrow> Tsocket_read_data \<Rightarrow> ('e c_env_scheme, verdict \<times> Tsocket_read_data) prog" where
  "string_sym c d =
     bnd (deref (parsing_str (parsing d))) (\<lambda>b.
     bnd (put b (cur_size_str (parsing d)) [c]) (\<lambda>b.
     let d = set_parsing (\<lambda>p. p\<lparr>parsing_str := Ptr b, cur_size_str := cur_size_str p + 1\<rparr>) d in
     if cur_size_str (parsing d) = size_str (parsing d) then
       bnd (put b (size_str (parsing d)) [NUL]) (\<lambda>b.
       bnd (malloc (size_str (parsing d) + 1)) (\<lambda>q.
       bnd (store_arg q d) (\<lambda>d.
       if q = NULL then ret (Stop_Err, set_parsing (\<lambda>p. p\<lparr>parsing_str := Ptr b\<rparr>)
                                          (d\<lparr>exit_status := ERR\<rparr>))
       else
         bnd (deref q) (\<lambda>arg.
         bnd (memcpy arg 0 b 0 (size_str (parsing d) + 1)) (\<lambda>arg.
         bnd (store_arg (Ptr arg) d) (\<lambda>d.
         let d = set_parsing (\<lambda>p. p\<lparr>parsing_str := Dangling, size_str := 0, cur_size_str := 0\<rparr>)
                   (d\<lparr>cur_count_argv := cur_count_argv d + 1\<rparr>) in
         ret (Go, d\<lparr>read_status := (if cur_count_argv d = argc d then END else START_STRING_WAIT)\<rparr>)))))))
     else ret (Go, d)))"

text \<open>One iteration: the tests in the order of the source.\<close>

definition parse_sym :: "char \<Rightarrow> Tsocket_read_data \<Rightarrow> ('e c_env_scheme, verdict \<times> Tsocket_read_data) prog" where
  "parse_sym c d =
     (if c = CHR ''*'' \<and> read_status d = ARRAY_WAIT then
        ret (Go, d\<lparr>read_status := NUM_OR_MINUS_WAIT\<rparr>)
      else if (is_digit c \<or> c = CHR ''-'') \<and> read_status d = NUM_OR_MINUS_WAIT then
        (if is_digit c then
           bnd (push_digit c d) (\<lambda>d.
           ret (Go, set_parsing (\<lambda>p. p\<lparr>is_negative := False\<rparr>) d\<lparr>read_status := NUM_WAIT\<rparr>))
         else ret (Go, set_parsing (\<lambda>p. p\<lparr>is_negative := True\<rparr>) d\<lparr>read_status := NUM_WAIT\<rparr>))
      else if is_digit c \<and> read_status d = NUM_WAIT then
        bnd (push_digit c d) (\<lambda>d. ret (Go, d))
      else if c = CR \<and> read_status d = NUM_WAIT then end_number d
      else if c = LF \<and> read_status d = START_STRING_WAIT then ret (Go, d)
      else if c = LF \<and> read_status d = STRING_WAIT then ret (Go, d\<lparr>read_status := STR_SYM_WAIT\<rparr>)
      else if c = CHR ''$'' \<and> read_status d = START_STRING_WAIT then
        ret (Go, d\<lparr>read_status := NUM_OR_MINUS_WAIT\<rparr>)
      else if read_status d = STR_SYM_WAIT then string_sym c d
      else if read_status d = END then (if c = LF then ret (Stop_All, d) else ret (Go, d))
      else ret (Go, d))"

text \<open>\<^verbatim>\<open>memmove\<close> of the unread rest to the front.\<close>

definition replace_part_of_buffer ::
    "Tsocket_read_data \<Rightarrow> int \<Rightarrow> ('e c_env_scheme, Tsocket_read_data) prog" where
  "replace_part_of_buffer d i =
     bnd (memcpy (read_buffer d) 0 (read_buffer d) i (cur_buffer_size d - i)) (\<lambda>b.
     ret (d\<lparr>read_buffer := b, cur_buffer_size := cur_buffer_size d - i\<rparr>))"

lemma push_digit_frame:
  "push_digit c d s = (Ret d', s') \<Longrightarrow>
   cur_buffer_size d' = cur_buffer_size d \<and> read_buffer d' = read_buffer d"
  by (auto simp: push_digit_def run split: if_splits)

lemma store_arg_frame:
  "store_arg p d s = (Ret d', s') \<Longrightarrow>
   cur_buffer_size d' = cur_buffer_size d \<and> read_buffer d' = read_buffer d"
  by (cases "argv d") (auto simp: store_arg_def run split: if_splits)

lemma end_number_frame:
  "end_number d s = (Ret (v, d'), s') \<Longrightarrow>
   cur_buffer_size d' = cur_buffer_size d \<and> read_buffer d' = read_buffer d"
  by (auto simp: end_number_def Let_def run split: if_splits)

lemma string_sym_frame:
  "string_sym c d s = (Ret (v, d'), s') \<Longrightarrow>
   cur_buffer_size d' = cur_buffer_size d \<and> read_buffer d' = read_buffer d"
  by (cases "parsing_str (parsing d)")
     (auto simp: string_sym_def Let_def run dest!: store_arg_frame
       split: if_splits outcome.splits prod.splits)

lemma parse_sym_frame:
  "parse_sym c d s = (Ret (v, d'), s') \<Longrightarrow>
   cur_buffer_size d' = cur_buffer_size d \<and> read_buffer d' = read_buffer d"
  by (auto simp: parse_sym_def run dest: push_digit_frame end_number_frame string_sym_frame
      split: if_splits outcome.splits prod.splits)

text \<open>The loop of \<^verbatim>\<open>parse_cli_mes\<close> from buffer index \<open>i\<close>; it ends because the index rises and the
  body never changes \<^verbatim>\<open>cur_buffer_size\<close>.\<close>

function parse_loop ::
    "int \<Rightarrow> Tsocket_read_data \<Rightarrow> 'e c_env_scheme \<Rightarrow> Tsocket_read_data outcome \<times> 'e c_env_scheme" where
  "parse_loop i d s =
     (case peek (read_buffer d) i s of
        (Ret None, s) \<Rightarrow> (Fault Uninitialised, s)
      | (Exit e, s) \<Rightarrow> (Exit e, s)
      | (Fault u, s) \<Rightarrow> (Fault u, s)
      | (Ret (Some c), s) \<Rightarrow>
          (case parse_sym c d s of
             (Exit e, s) \<Rightarrow> (Exit e, s)
           | (Fault u, s) \<Rightarrow> (Fault u, s)
           | (Ret (Stop_Err, d'), s') \<Rightarrow> (Ret d', s')
           | (Ret (Stop_All, d'), s') \<Rightarrow>
               bnd (replace_part_of_buffer d' (i + 1)) (\<lambda>d''. ret (d''\<lparr>exit_status := ALL_READ\<rparr>)) s'
           | (Ret (Go, d'), s') \<Rightarrow>
               if i + 1 \<ge> cur_buffer_size d'
               then (Ret (d'\<lparr>cur_buffer_size := 0, exit_status := NOT_ALL\<rparr>), s')
               else parse_loop (i + 1) d' s'))"
  by pat_completeness auto
termination
  by (relation "measure (\<lambda>(i, d, s). nat (cur_buffer_size d - i))")
     (auto dest!: parse_sym_frame [OF sym])

declare parse_loop.simps [simp del]

definition parse_cli_mes :: "Tsocket_read_data \<Rightarrow> ('e c_env_scheme, Tsocket_read_data) prog" where
  "parse_cli_mes d = parse_loop 0 d"

section \<open>The automaton on a list of bytes\<close>

text \<open>\<open>feed\<close> runs the automaton over bytes until it stops, and returns what is left of them.\<close>

fun feed :: "string \<Rightarrow> Tsocket_read_data \<Rightarrow>
    ('e c_env_scheme, verdict \<times> Tsocket_read_data \<times> string) prog" where
  "feed [] d = ret (Go, d, [])"
| "feed (c # cs) d =
     bnd (parse_sym c d) (\<lambda>(v, d'). if v = Go then feed cs d' else ret (v, d', cs))"

text \<open>The parser on a list of bytes, continued from a state in which it did not stop.\<close>

lemma feed_append:
  "feed (xs @ ys) d =
   bnd (feed xs d) (\<lambda>(v, d', rest). if v = Go then feed ys d' else ret (v, d', rest @ ys))"
proof (induction xs arbitrary: d)
  case Nil
  show ?case by simp
next
  case (Cons c cs)
  show ?case
    by (simp add: bnd_assoc Cons.IH)
       (rule arg_cong [of _ _ "bnd (parse_sym c d)"], auto simp: fun_eq_iff Cons.IH)
qed

lemma feed_seq:
  "feed xs d s = (Ret (Go, d', []), s') \<Longrightarrow> feed ys d' s' = r \<Longrightarrow> feed (xs @ ys) d s = r"
  by (simp add: feed_append run)

lemma feed_append_Go:
  "feed xs d s = (Ret (Go, d', []), s') \<Longrightarrow> feed (xs @ ys) d s = feed ys d' s'"
  by (simp add: feed_append run)

section \<open>Decoding a request\<close>

text \<open>The RESP request of a list of arguments: an array of bulk strings.\<close>

definition bulk :: "string \<Rightarrow> string" where
  "bulk a = ''$'' @ dec (length a) @ CRLF @ a"

definition arg_frame :: "string \<Rightarrow> string" where
  "arg_frame a = bulk a @ CRLF"

definition header :: "nat \<Rightarrow> string" where
  "header n = ''*'' @ dec n @ CRLF"

definition resp_request :: "string list \<Rightarrow> string" where
  "resp_request args = header (length args) @ concat (map arg_frame args)"

text \<open>A request the parser is meant for: no empty argument, and sizes an \<^verbatim>\<open>int\<close> can hold.\<close>

definition good_args :: "string list \<Rightarrow> bool" where
  "good_args args \<longleftrightarrow>
     args \<noteq> [] \<and> int (length args) < 2 ^ 31 \<and>
     (\<forall>a \<in> set args. a \<noteq> [] \<and> int (length a) < 2 ^ 31 - 1)"

lemma num_fold_mono: "0 \<le> a \<Longrightarrow> \<forall>c \<in> set ds. is_digit c \<Longrightarrow> a \<le> num_fold a ds"
proof (induction ds arbitrary: a)
  case Nil
  show ?case by simp
next
  case (Cons c cs)
  have c: "0 \<le> digit_val c" using Cons.prems(2) by (simp add: digit_val_def is_digit_def)
  then have "a * 10 + digit_val c \<le> num_fold (a * 10 + digit_val c) cs"
    using Cons.prems by (intro Cons.IH) auto
  then show ?case using c Cons.prems(1) by simp
qed

lemma feed_digits:
  assumes "read_status d = NUM_WAIT" and "0 \<le> parsing_num (parsing d)"
    and "\<forall>c \<in> set ds. is_digit c" and "num_fold (parsing_num (parsing d)) ds < 2 ^ 31"
  shows "feed ds d s =
    (Ret (Go, set_parsing (\<lambda>p. p\<lparr>parsing_num := num_fold (parsing_num p) ds\<rparr>) d, []), s)"
  using assms
proof (induction ds arbitrary: d)
  case Nil
  then show ?case by (simp add: run)
next
  case (Cons c cs)
  let ?n = "parsing_num (parsing d) * 10 + digit_val c"
  have c: "0 \<le> digit_val c" "is_digit c" "c \<noteq> CR" "c \<noteq> LF"
    using Cons.prems(3) by (auto simp: digit_val_def is_digit_def)
  have le: "?n \<le> num_fold ?n cs"
    using Cons.prems(2,3) c by (intro num_fold_mono) auto
  then have "int_range ?n"
    using Cons.prems(2,4) c by (simp add: int_range_def)
  then have "parse_sym c d s = (Ret (Go, set_parsing (\<lambda>p. p\<lparr>parsing_num := ?n\<rparr>) d), s)"
    using Cons.prems(1) c by (simp add: parse_sym_def push_digit_def run)
  then show ?case
    using Cons.prems c by (simp add: run Cons.IH)
qed

lemma feed_number:
  assumes "read_status d = NUM_OR_MINUS_WAIT" and "parsing_num (parsing d) = 0" and "int n < 2 ^ 31"
  shows "feed (dec n) d s =
    (Ret (Go, d\<lparr>parsing := (parsing d)\<lparr>parsing_num := int n, is_negative := False\<rparr>,
                read_status := NUM_WAIT\<rparr>, []), s)"
proof -
  obtain c cs where dec: "dec n = c # cs" by (cases "dec n") auto
  have dig: "is_digit c" "\<forall>x \<in> set cs. is_digit x"
    using dec_digits [of _ n] by (auto simp: dec)
  have val: "num_fold (digit_val c) cs = int n"
    using num_fold_dec [of n] by (simp add: dec)
  have c: "0 \<le> digit_val c" using dig(1) by (simp add: digit_val_def is_digit_def)
  have "digit_val c \<le> int n"
    using num_fold_mono [OF c dig(2)] by (simp add: val)
  then have "parse_sym c d s =
      (Ret (Go, d\<lparr>parsing := (parsing d)\<lparr>parsing_num := digit_val c, is_negative := False\<rparr>,
                  read_status := NUM_WAIT\<rparr>), s)"
    using assms dig(1) c by (auto simp: parse_sym_def push_digit_def int_range_def run)
  then show ?thesis
    using assms dig c val by (simp add: dec run feed_digits)
qed

lemma feed_header:
  assumes "read_status d = ARRAY_WAIT" and "argc d = -1" and "parsing_num (parsing d) = 0"
    and "int n < 2 ^ 31" and "mallocs_ok s"
  shows "feed (header n) d s =
    (Ret (Go, d\<lparr>argv := Ptr (replicate n None), argc := int n, cur_count_argv := 0,
                parsing := (parsing d)\<lparr>parsing_num := 0, is_negative := False\<rparr>,
                read_status := START_STRING_WAIT\<rparr>, []), s\<lparr>mallocs := tl (mallocs s)\<rparr>)"
proof -
  let ?d = "d\<lparr>read_status := NUM_OR_MINUS_WAIT\<rparr>"
  have "feed (dec n @ CRLF) ?d s = feed CRLF
      (?d\<lparr>parsing := (parsing d)\<lparr>parsing_num := int n, is_negative := False\<rparr>, read_status := NUM_WAIT\<rparr>) s"
    using assms by (subst feed_append_Go [OF feed_number]) simp_all
  then show ?thesis
    using assms by (simp add: header_def parse_sym_def end_number_def Let_def run)
qed

text \<open>The bytes of one string: the buffer is filled from the left, the last byte finishes it.\<close>

lemma feed_string:
  assumes "read_status d = STR_SYM_WAIT" and "size_str (parsing d) = int (length (pre @ post))"
    and "cur_size_str (parsing d) = int (length pre)" and "post \<noteq> []"
    and "parsing_str (parsing d) = Ptr (cells pre @ replicate (Suc (length post)) None)"
    and "argv d = Ptr arr" and "cur_count_argv d = int k" and "k < length arr"
    and "mallocs_ok s" and "int (length (pre @ post)) < 2 ^ 31 - 1"
  shows "feed post d s =
    (Ret (Go, d\<lparr>argv := Ptr (arr[k := Some (Ptr (cells (pre @ post) @ [Some NUL]))]),
                cur_count_argv := int k + 1,
                parsing := (parsing d)\<lparr>parsing_str := Dangling, size_str := 0, cur_size_str := 0\<rparr>,
                read_status := (if int k + 1 = argc d then END else START_STRING_WAIT)\<rparr>, []),
     s\<lparr>mallocs := tl (mallocs s)\<rparr>)"
  using assms
proof (induction post arbitrary: d pre)
  case Nil
  then show ?case by simp
next
  case (Cons c cs)
  show ?case
  proof (cases cs)
    case Nil
    then show ?thesis using Cons.prems
      by (simp add: parse_sym_def string_sym_def store_arg_def Let_def run blit_def nat_add_distrib)
  next
    case (Cons x xs)
    let ?d = "set_parsing (\<lambda>p. p\<lparr>parsing_str := Ptr (cells (pre @ [c]) @ replicate (Suc (length cs)) None),
                cur_size_str := int (length pre) + 1\<rparr>) d"
    have step: "parse_sym c d s = (Ret (Go, ?d), s)"
      using Cons.prems Cons
      by (simp add: parse_sym_def string_sym_def Let_def run blit_def nat_add_distrib)
    have "feed cs ?d s =
      (Ret (Go, ?d\<lparr>argv := Ptr (arr[k := Some (Ptr (cells ((pre @ [c]) @ cs) @ [Some NUL]))]),
                cur_count_argv := int k + 1,
                parsing := (parsing ?d)\<lparr>parsing_str := Dangling, size_str := 0, cur_size_str := 0\<rparr>,
                read_status := (if int k + 1 = argc ?d then END else START_STRING_WAIT)\<rparr>, []),
       s\<lparr>mallocs := tl (mallocs s)\<rparr>)"
      using Cons.prems Cons by (intro Cons.IH) simp_all
    then show ?thesis by (simp add: step run)
  qed
qed

abbreviation (input) stored_arg :: "string \<Rightarrow> buffer ptr option" where
  "stored_arg a \<equiv> Some (Ptr (cells a @ [Some NUL]))"

lemma feed_bulk:
  assumes "read_status d = START_STRING_WAIT" and "parsing_num (parsing d) = 0" and "argc d \<noteq> -1"
    and "argv d = Ptr arr" and "cur_count_argv d = int k" and "k < length arr"
    and "a \<noteq> []" and "int (length a) < 2 ^ 31 - 1" and "mallocs_ok s"
  shows "feed (bulk a) d s =
    (Ret (Go, d\<lparr>argv := Ptr (arr[k := stored_arg a]), cur_count_argv := int k + 1,
                parsing := \<lparr>parsing_num = 0, is_negative = False, parsing_str = Dangling,
                            size_str = 0, cur_size_str = 0\<rparr>,
                read_status := (if int k + 1 = argc d then END else START_STRING_WAIT)\<rparr>, []),
     s\<lparr>mallocs := tl (tl (mallocs s))\<rparr>)"
proof -
  let ?d0 = "d\<lparr>read_status := NUM_OR_MINUS_WAIT\<rparr>"
  let ?d1 = "?d0\<lparr>parsing := (parsing d)\<lparr>parsing_num := int (length a), is_negative := False\<rparr>,
              read_status := NUM_WAIT\<rparr>"
  let ?d2 = "d\<lparr>parsing := \<lparr>parsing_num = 0, is_negative = False,
                  parsing_str = Ptr (cells [] @ replicate (Suc (length a)) None),
                  size_str = int (length a), cur_size_str = 0\<rparr>,
              read_status := STR_SYM_WAIT\<rparr>"
  let ?s = "s\<lparr>mallocs := tl (mallocs s)\<rparr>"
  have "feed (dec (length a) @ CRLF @ a) ?d0 s = feed (CRLF @ a) ?d1 s"
    using assms by (subst feed_append_Go [OF feed_number]) simp_all
  also have "\<dots> = feed a ?d2 ?s"
    using assms
    by (cases "parsing d") (simp add: parse_sym_def end_number_def Let_def int_range_def run nat_add_distrib replicate_app_Cons_same)
  also have "\<dots> = (Ret (Go, ?d2\<lparr>argv := Ptr (arr[k := stored_arg ([] @ a)]),
                cur_count_argv := int k + 1,
                parsing := (parsing ?d2)\<lparr>parsing_str := Dangling, size_str := 0, cur_size_str := 0\<rparr>,
                read_status := (if int k + 1 = argc ?d2 then END else START_STRING_WAIT)\<rparr>, []),
     ?s\<lparr>mallocs := tl (mallocs ?s)\<rparr>)"
    using assms by (intro feed_string) simp_all
  finally show ?thesis
    using assms by (simp add: bulk_def parse_sym_def run)
qed

text \<open>A state between two arguments: \<open>done\<close> are stored, \<open>n\<close> are announced.\<close>

definition args_state :: "nat \<Rightarrow> string list \<Rightarrow> Tsocket_read_data \<Rightarrow> Tsocket_read_data" where
  "args_state n done d =
     d\<lparr>argv := Ptr (map stored_arg done @ replicate (n - length done) None),
       argc := int n, cur_count_argv := int (length done),
       parsing := (if done = [] then (parsing d)\<lparr>parsing_num := 0, is_negative := False\<rparr>
                   else \<lparr>parsing_num = 0, is_negative = False, parsing_str = Dangling,
                         size_str = 0, cur_size_str = 0\<rparr>),
       read_status := (if length done = n then END else START_STRING_WAIT)\<rparr>"

lemma feed_bulk_args_state:
  assumes "length done < n" and "a \<noteq> []" and "int (length a) < 2 ^ 31 - 1" and "mallocs_ok s"
  shows "feed (bulk a) (args_state n done d) s =
         (Ret (Go, args_state n (done @ [a]) d, []), s\<lparr>mallocs := drop 2 (mallocs s)\<rparr>)"
proof -
  obtain k where k: "n - length done = Suc k" using assms(1) by (cases "n - length done") auto
  have "feed (bulk a) (args_state n done d) s =
    (Ret (Go, (args_state n done d)
       \<lparr>argv := Ptr ((map stored_arg done @ replicate (n - length done) None)[length done := stored_arg a]),
        cur_count_argv := int (length done) + 1,
        parsing := \<lparr>parsing_num = 0, is_negative = False, parsing_str = Dangling,
                    size_str = 0, cur_size_str = 0\<rparr>,
        read_status := (if int (length done) + 1 = argc (args_state n done d) then END
                        else START_STRING_WAIT)\<rparr>, []),
     s\<lparr>mallocs := tl (tl (mallocs s))\<rparr>)"
    using assms by (intro feed_bulk) (simp_all add: args_state_def)
  moreover have "n - Suc (length done) = k" using k by simp
  ultimately show ?thesis
    using assms k by (auto simp: args_state_def list_update_append numeral_2_eq_2 drop_Suc)
qed

lemma feed_skip_CRLF:
  "read_status d = START_STRING_WAIT \<Longrightarrow> feed CRLF d s = (Ret (Go, d, []), s)"
  "read_status d = END \<Longrightarrow> feed CRLF d s = (Ret (Stop_All, d, []), s)"
  by (simp_all add: parse_sym_def run)

text \<open>The arguments but the last leave the automaton waiting for the next one, the last ends it.\<close>

lemma feed_args_prefix:
  assumes "\<forall>a \<in> set args. a \<noteq> [] \<and> int (length a) < 2 ^ 31 - 1"
    and "length done + length args < n" and "mallocs_ok s"
  shows "feed (concat (map arg_frame args)) (args_state n done d) s =
         (Ret (Go, args_state n (done @ args) d, []),
          s\<lparr>mallocs := drop (2 * length args) (mallocs s)\<rparr>)"
  using assms
proof (induction args arbitrary: "done" s)
  case Nil
  then show ?case by (simp add: run)
next
  case (Cons a as)
  let ?d = "args_state n (done @ [a]) d" and ?s = "s\<lparr>mallocs := drop 2 (mallocs s)\<rparr>"
  have "feed (bulk a) (args_state n done d) s = (Ret (Go, ?d, []), ?s)"
    using Cons.prems by (intro feed_bulk_args_state) auto
  moreover have "feed CRLF ?d ?s = (Ret (Go, ?d, []), ?s)"
    using Cons.prems by (intro feed_skip_CRLF) (simp add: args_state_def)
  ultimately have "feed (arg_frame a) (args_state n done d) s = (Ret (Go, ?d, []), ?s)"
    unfolding arg_frame_def by (rule feed_seq)
  moreover have "feed (concat (map arg_frame as)) ?d ?s =
         (Ret (Go, args_state n ((done @ [a]) @ as) d, []),
          ?s\<lparr>mallocs := drop (2 * length as) (mallocs ?s)\<rparr>)"
    using Cons.prems by (intro Cons.IH) auto
  ultimately have "feed (arg_frame a @ concat (map arg_frame as)) (args_state n done d) s =
         (Ret (Go, args_state n ((done @ [a]) @ as) d, []),
          ?s\<lparr>mallocs := drop (2 * length as) (mallocs ?s)\<rparr>)"
    by (rule feed_seq)
  then show ?case by (simp add: add.commute)
qed

lemma feed_args:
  assumes "args \<noteq> []" and "\<forall>a \<in> set args. a \<noteq> [] \<and> int (length a) < 2 ^ 31 - 1"
    and "length done + length args = n" and "mallocs_ok s"
  shows "feed (concat (map arg_frame args)) (args_state n done d) s =
         (Ret (Stop_All, args_state n (done @ args) d, []),
          s\<lparr>mallocs := drop (2 * length args) (mallocs s)\<rparr>)"
proof -
  obtain as a where args: "args = as @ [a]" using assms(1) by (cases args rule: rev_cases) auto
  let ?s = "s\<lparr>mallocs := drop (2 * length as) (mallocs s)\<rparr>"
  let ?s' = "s\<lparr>mallocs := drop (2 * length args) (mallocs s)\<rparr>"
  have "feed (concat (map arg_frame as)) (args_state n done d) s =
         (Ret (Go, args_state n (done @ as) d, []), ?s)"
    using assms by (intro feed_args_prefix) (auto simp: args)
  moreover have "feed (bulk a) (args_state n (done @ as) d) ?s =
      (Ret (Go, args_state n ((done @ as) @ [a]) d, []), ?s\<lparr>mallocs := drop 2 (mallocs ?s)\<rparr>)"
    using assms by (intro feed_bulk_args_state) (auto simp: args)
  moreover have "feed CRLF (args_state n (done @ args) d) ?s' =
      (Ret (Stop_All, args_state n (done @ args) d, []), ?s')"
    using assms(3) by (intro feed_skip_CRLF) (simp add: args_state_def)
  ultimately have "feed (concat (map arg_frame as) @ bulk a @ CRLF) (args_state n done d) s =
      (Ret (Stop_All, args_state n (done @ args) d, []), ?s')"
    by (intro feed_seq) (simp_all add: args add.commute)
  then show ?thesis by (simp add: args arg_frame_def)
qed

text \<open>A connection waiting for a request, as it is accepted or reset after the request before.\<close>

definition idle :: "Tsocket_read_data \<Rightarrow> bool" where
  "idle d \<longleftrightarrow> read_status d = ARRAY_WAIT \<and> argc d = -1 \<and> parsing_num (parsing d) = 0 \<and>
     exit_status d = NOT_ALL"

lemma feed_request_header:
  assumes "idle d" and "0 < n" and "int n < 2 ^ 31" and "mallocs_ok s"
  shows "feed (header n) d s =
    (Ret (Go, args_state n [] d, []), s\<lparr>mallocs := tl (mallocs s)\<rparr>)"
  using assms feed_header [of d n s] by (simp add: idle_def args_state_def)

lemma feed_request:
  assumes "idle d" and "good_args args" and "mallocs_ok s"
  shows "feed (resp_request args) d s =
         (Ret (Stop_All, args_state (length args) args d, []),
          s\<lparr>mallocs := drop (1 + 2 * length args) (mallocs s)\<rparr>)"
proof -
  let ?n = "length args" and ?s = "s\<lparr>mallocs := tl (mallocs s)\<rparr>"
  have "feed (header ?n) d s = (Ret (Go, args_state ?n [] d, []), ?s)"
    using assms by (intro feed_request_header) (auto simp: good_args_def)
  moreover have "feed (concat (map arg_frame args)) (args_state ?n [] d) ?s =
      (Ret (Stop_All, args_state ?n ([] @ args) d, []),
          ?s\<lparr>mallocs := drop (2 * ?n) (mallocs ?s)\<rparr>)"
    using assms by (intro feed_args) (auto simp: good_args_def)
  ultimately have "feed (resp_request args) d s =
      (Ret (Stop_All, args_state ?n ([] @ args) d, []), ?s\<lparr>mallocs := drop (2 * ?n) (mallocs ?s)\<rparr>)"
    unfolding resp_request_def by (rule feed_seq)
  then show ?thesis by (simp add: drop_Suc)
qed

section \<open>Packets\<close>

text \<open>The automaton never looks at the buffer fields, so they may be changed under its feet.\<close>

definition with_buffer :: "buffer \<Rightarrow> int \<Rightarrow> Tsocket_read_data \<Rightarrow> Tsocket_read_data" where
  "with_buffer b n d = d\<lparr>read_buffer := b, cur_buffer_size := n\<rparr>"

lemma with_buffer_simps [simp]:
  "read_status (with_buffer b n d) = read_status d" "argc (with_buffer b n d) = argc d"
  "argv (with_buffer b n d) = argv d" "parsing (with_buffer b n d) = parsing d"
  "cur_count_argv (with_buffer b n d) = cur_count_argv d"
  "exit_status (with_buffer b n d) = exit_status d"
  "read_buffer (with_buffer b n d) = b" "cur_buffer_size (with_buffer b n d) = n"
  "with_buffer b n (with_buffer b' n' d) = with_buffer b n d"
  by (simp_all add: with_buffer_def)

definition map_ret :: "('a \<Rightarrow> 'b) \<Rightarrow> ('s, 'a) prog \<Rightarrow> ('s, 'b) prog" where
  "map_ret f m = bnd m (\<lambda>x. ret (f x))"

lemma map_ret_run [run]:
  "map_ret f m s = (case m s of
      (Ret x, s') \<Rightarrow> (Ret (f x), s') | (Exit e, s') \<Rightarrow> (Exit e, s') | (Fault u, s') \<Rightarrow> (Fault u, s'))"
  by (simp add: map_ret_def run split: prod.splits outcome.splits)

lemma push_digit_with_buffer:
  "push_digit c (with_buffer b n d) = map_ret (with_buffer b n) (push_digit c d)"
  by (rule ext) (simp add: push_digit_def run with_buffer_def)

lemma store_arg_with_buffer:
  "store_arg p (with_buffer b n d) = map_ret (with_buffer b n) (store_arg p d)"
  by (rule ext, cases "argv d") (simp_all add: store_arg_def run with_buffer_def)

lemma end_number_with_buffer:
  "end_number (with_buffer b n d) = map_ret (apsnd (with_buffer b n)) (end_number d)"
  by (rule ext) (simp add: end_number_def Let_def run with_buffer_def)

lemma string_sym_with_buffer:
  "string_sym c (with_buffer b n d) = map_ret (apsnd (with_buffer b n)) (string_sym c d)"
  by (rule ext, cases "parsing_str (parsing d)"; cases "argv d")
     (simp_all add: string_sym_def store_arg_def Let_def run with_buffer_def)

lemma parse_sym_with_buffer:
  "parse_sym c (with_buffer b n d) = map_ret (apsnd (with_buffer b n)) (parse_sym c d)"
  by (rule ext)
     (simp add: parse_sym_def push_digit_with_buffer end_number_with_buffer string_sym_with_buffer run
       with_buffer_def [of b n "_\<lparr>read_status := _\<rparr>"] split: prod.splits outcome.splits)

lemma feed_with_buffer:
  "feed cs (with_buffer b n d) = map_ret (\<lambda>(v, d, r). (v, with_buffer b n d, r)) (feed cs d)"
proof (induction cs arbitrary: d)
  case Nil
  show ?case by (rule ext) (simp add: run)
next
  case (Cons c cs)
  show ?case
    by (rule ext) (simp add: parse_sym_with_buffer run Cons.IH split: prod.splits outcome.splits)
qed

lemma feed_frame:
  "feed cs d s = (Ret (v, d', r), s') \<Longrightarrow>
   cur_buffer_size d' = cur_buffer_size d \<and> read_buffer d' = read_buffer d"
proof (induction cs arbitrary: d s)
  case Nil
  then show ?case by (simp add: run)
next
  case (Cons c cs)
  then show ?case
    by (auto simp: run dest!: parse_sym_frame split: prod.splits outcome.splits if_splits)
qed

text \<open>A byte that does not stop the automaton leaves \<^verbatim>\<open>exit_status\<close> alone.\<close>

lemma store_arg_exit_status: "store_arg p d s = (Ret d', s') \<Longrightarrow> exit_status d' = exit_status d"
  by (cases "argv d") (auto simp: store_arg_def run split: if_splits)

lemma parse_sym_exit_status:
  "parse_sym c d s = (Ret (v, d'), s') \<Longrightarrow> v \<noteq> Stop_Err \<Longrightarrow> exit_status d' = exit_status d"
  by (cases "parsing_str (parsing d)")
     (auto simp: parse_sym_def push_digit_def end_number_def string_sym_def Let_def run
       dest!: store_arg_exit_status split: if_splits outcome.splits prod.splits)

lemma feed_exit_status:
  "feed cs d s = (Ret (v, d', r), s') \<Longrightarrow> v \<noteq> Stop_Err \<Longrightarrow> exit_status d' = exit_status d"
proof (induction cs arbitrary: d s)
  case Nil
  then show ?case by (simp add: run)
next
  case (Cons c cs)
  then show ?case
    by (auto simp: run dest: parse_sym_exit_status split: prod.splits outcome.splits if_splits)
qed

lemma parse_sym_Stop_Err:
  "parse_sym c d s = (Ret (Stop_Err, d'), s') \<Longrightarrow> exit_status d' = ERR"
  by (cases "parsing_str (parsing d)")
     (auto simp: parse_sym_def push_digit_def end_number_def string_sym_def Let_def run
       split: if_splits outcome.splits prod.splits)

lemma feed_Stop_Err: "feed cs d s = (Ret (Stop_Err, d', r), s') \<Longrightarrow> exit_status d' = ERR"
proof (induction cs arbitrary: d s)
  case Nil
  then show ?case by (simp add: run)
next
  case (Cons c cs)
  then show ?case
    by (auto simp: run dest: parse_sym_Stop_Err split: prod.splits outcome.splits if_splits)
qed

text \<open>The read buffer holds the bytes \<open>cs\<close>.\<close>

definition holds :: "Tsocket_read_data \<Rightarrow> string \<Rightarrow> bool" where
  "holds d cs \<longleftrightarrow> cur_buffer_size d = int (length cs) \<and> length cs \<le> length (read_buffer d) \<and>
     take (length cs) (read_buffer d) = cells cs"

definition finish_parse ::
    "verdict \<times> Tsocket_read_data \<times> string \<Rightarrow> Tsocket_read_data" where
  "finish_parse = (\<lambda>(v, d, rest). case v of
       Go \<Rightarrow> d\<lparr>cur_buffer_size := 0, exit_status := NOT_ALL\<rparr>
     | Stop_Err \<Rightarrow> d
     | Stop_All \<Rightarrow> with_buffer (blit (read_buffer d) 0 (cells rest)) (int (length rest)) d
                   \<lparr>exit_status := ALL_READ\<rparr>)"

lemma holds_nth: "holds d cs \<Longrightarrow> k < length cs \<Longrightarrow> read_buffer d ! k = Some (cs ! k)"
  by (metis holds_def nth_map nth_take)

lemma holds_drop:
  "holds d cs \<Longrightarrow> take (length cs - k) (drop k (read_buffer d)) = cells (drop k cs)"
  by (metis drop_map drop_take holds_def)

lemma parse_loop_feed:
  assumes "holds d cs" and "k < length cs"
  shows "parse_loop (int k) d s = map_ret finish_parse (feed (drop k cs) d) s"
  using assms
proof (induction "length cs - k" arbitrary: k d s)
  case 0
  then show ?case by simp
next
  case (Suc m)
  from Suc.prems have at: "peek (read_buffer d) (int k) s = (Ret (Some (cs ! k)), s)"
    by (simp add: run holds_def) (metis holds_def holds_nth)
  have drop: "drop k cs = cs ! k # drop (Suc k) cs"
    using Suc.prems by (simp add: Cons_nth_drop_Suc)
  have loop: "parse_loop (int k) d s = (case parse_sym (cs ! k) d s of
       (Exit e, s) \<Rightarrow> (Exit e, s)
     | (Fault u, s) \<Rightarrow> (Fault u, s)
     | (Ret (Stop_Err, d'), s') \<Rightarrow> (Ret d', s')
     | (Ret (Stop_All, d'), s') \<Rightarrow>
         bnd (replace_part_of_buffer d' (int k + 1)) (\<lambda>d''. ret (d''\<lparr>exit_status := ALL_READ\<rparr>)) s'
     | (Ret (Go, d'), s') \<Rightarrow>
         if int k + 1 \<ge> cur_buffer_size d'
         then (Ret (d'\<lparr>cur_buffer_size := 0, exit_status := NOT_ALL\<rparr>), s')
         else parse_loop (int k + 1) d' s')"
    by (subst parse_loop.simps) (simp add: at)
  show ?case
  proof (cases "\<exists>d' s'. parse_sym (cs ! k) d s = (Ret (Go, d'), s')")
    case True
    then obtain d' s' where sym: "parse_sym (cs ! k) d s = (Ret (Go, d'), s')" by blast
    have holds': "holds d' cs" and size: "cur_buffer_size d' = int (length cs)"
      using parse_sym_frame [OF sym] Suc.prems(1) by (auto simp: holds_def)
    show ?thesis
    proof (cases "Suc k < length cs")
      case True
      then have "parse_loop (int (Suc k)) d' s' = map_ret finish_parse (feed (drop (Suc k) cs) d') s'"
        using Suc holds' by (intro Suc.hyps) auto
      then show ?thesis
        using True size by (simp add: loop sym drop run add.commute)
    next
      case False
      then show ?thesis
        using Suc.prems size
        by (simp add: loop sym drop run finish_parse_def)
    qed
  next
    case False
    have "\<And>d' s'. parse_sym (cs ! k) d s = (Ret (Stop_All, d'), s') \<Longrightarrow>
       take (length cs - Suc k) (drop (Suc k) (read_buffer d')) = cells (drop (Suc k) cs) \<and>
       cur_buffer_size d' = int (length cs) \<and> length cs \<le> length (read_buffer d')"
      using parse_sym_frame Suc.prems(1) holds_drop [of d cs "Suc k"] by (fastforce simp: holds_def)
    with False Suc.prems(2) show ?thesis
      by (simp add: loop drop run replace_part_of_buffer_def
          split: prod.splits outcome.splits verdict.splits)
        (auto simp: finish_parse_def with_buffer_def nat_add_distrib nat_diff_distrib)
  qed
qed

text \<open>The bytes that one \<^verbatim>\<open>read\<close> delivers: stored behind \<^verbatim>\<open>cur_buffer_size\<close>, which then becomes
  the count just read.\<close>

definition receive :: "string \<Rightarrow> Tsocket_read_data \<Rightarrow> Tsocket_read_data" where
  "receive bs d =
     with_buffer (blit (read_buffer d) (nat (cur_buffer_size d)) (cells bs)) (int (length bs)) d"

text \<open>The packets of a connection, parsed one after the other until a request is complete.\<close>

fun deliver :: "string list \<Rightarrow> Tsocket_read_data \<Rightarrow> ('e c_env_scheme, Tsocket_read_data) prog" where
  "deliver [] d = ret d"
| "deliver (p # ps) d =
     bnd (parse_cli_mes (receive p d)) (\<lambda>d. if exit_status d = NOT_ALL then deliver ps d else ret d)"

definition packet :: "string \<Rightarrow> bool" where
  "packet p \<longleftrightarrow> p \<noteq> [] \<and> int (length p) \<le> BUFFER_SIZE"

definition fresh_buffer :: "Tsocket_read_data \<Rightarrow> bool" where
  "fresh_buffer d \<longleftrightarrow> int (length (read_buffer d)) = BUFFER_SIZE \<and> cur_buffer_size d = 0"

lemma feed_Go_rest: "feed cs d s = (Ret (Go, d', r), s') \<Longrightarrow> r = []"
proof (induction cs arbitrary: d s)
  case Nil
  then show ?case by (simp add: run)
next
  case (Cons c cs)
  then show ?case by (auto simp: run split: prod.splits outcome.splits if_splits)
qed

lemma feed_rest_length: "feed cs d s = (Ret (v, d', r), s') \<Longrightarrow> v \<noteq> Go \<Longrightarrow> length r < length cs"
proof (induction cs arbitrary: d s)
  case Nil
  then show ?case by (simp add: run)
next
  case (Cons c cs)
  then show ?case
    by (fastforce simp: run split: prod.splits outcome.splits if_splits)
qed

lemma receive_holds: "fresh_buffer d \<Longrightarrow> packet p \<Longrightarrow> holds (receive p d) p"
  by (simp add: fresh_buffer_def packet_def holds_def receive_def blit_def)

lemma parse_cli_mes_feed:
  "holds d cs \<Longrightarrow> cs \<noteq> [] \<Longrightarrow> parse_cli_mes d s = map_ret finish_parse (feed cs d) s"
  using parse_loop_feed [of d cs 0 s] by (simp add: parse_cli_mes_def)

lemma parse_packet:
  assumes "fresh_buffer d" and "packet p" and "feed p d s = (Ret (v, d', r), s')"
  shows "\<exists>b. length b = 200 \<and> parse_cli_mes (receive p d) s =
           (Ret (finish_parse (v, with_buffer b (int (length p)) d', r)), s')"
proof -
  let ?b = "blit (read_buffer d) (nat (cur_buffer_size d)) (cells p)"
  have "parse_cli_mes (receive p d) s = map_ret finish_parse (feed p (receive p d)) s"
    using assms(2) receive_holds [OF assms(1,2)] by (simp add: parse_cli_mes_feed packet_def)
  also have "\<dots> = (Ret (finish_parse (v, with_buffer ?b (int (length p)) d', r)), s')"
    using assms(3) by (simp add: receive_def feed_with_buffer run)
  finally show ?thesis
    using assms(1,2) by (intro exI [of _ ?b]) (simp add: fresh_buffer_def packet_def)
qed

lemma deliver_feed:
  assumes "feed (concat ps) d s = (Ret (Stop_All, d', rest), s')"
    and "ps \<noteq> []" and "\<forall>p \<in> set ps. packet p" and "length rest < length (last ps)"
    and "fresh_buffer d" and "exit_status d = NOT_ALL"
  shows "\<exists>b. length b = 200 \<and> holds (with_buffer b (int (length rest)) d') rest \<and>
           deliver ps d s =
           (Ret (with_buffer b (int (length rest)) d'\<lparr>exit_status := ALL_READ\<rparr>), s')"
  using assms
proof (induction ps arbitrary: d s d')
  case Nil
  then show ?case by simp
next
  case (Cons p ps)
  have fb: "fresh_buffer d" and pk: "packet p" using Cons.prems by auto
  obtain v d1 r1 s1 where one: "feed p d s = (Ret (v, d1, r1), s1)"
    using Cons.prems(1) by (auto simp: feed_append run split: prod.splits outcome.splits)
  obtain b where len: "length b = 200" and parse: "parse_cli_mes (receive p d) s =
      (Ret (finish_parse (v, with_buffer b (int (length p)) d1, r1)), s1)"
    using parse_packet [OF fb pk one] by blast
  show ?case
  proof (cases v)
    case Go
    have r1: "r1 = []" using one unfolding Go by (rule feed_Go_rest)
    have more: "feed (concat ps) d1 s1 = (Ret (Stop_All, d', rest), s')"
      using Cons.prems(1) one Go by (simp add: feed_append run)
    then have ps: "ps \<noteq> []" by (auto simp: run)
    have ex: "exit_status d1 = NOT_ALL"
      using feed_exit_status [OF one] Go Cons.prems(6) by simp
    have fin: "finish_parse (Go, with_buffer b (int (length p)) d1, []) = with_buffer b 0 d1"
      using ex by (cases d1) (simp add: finish_parse_def with_buffer_def)
    have "\<exists>b'. length b' = 200 \<and>
        holds (with_buffer b' (int (length rest)) (with_buffer b 0 d')) rest \<and>
        deliver ps (with_buffer b 0 d1) s1 =
        (Ret (with_buffer b' (int (length rest)) (with_buffer b 0 d')\<lparr>exit_status := ALL_READ\<rparr>), s')"
      using more ps Cons.prems len ex
      by (intro Cons.IH) (auto simp: feed_with_buffer run fresh_buffer_def)
    then show ?thesis using parse Go r1 fin ex by (auto simp: run)
  next
    case Stop_Err
    then show ?thesis using Cons.prems(1) one by (simp add: feed_append run)
  next
    case Stop_All
    then have rest: "d' = d1" "rest = r1 @ concat ps" "s' = s1"
      using Cons.prems(1) one by (auto simp: feed_append run)
    have "ps = []"
    proof (rule ccontr)
      assume "ps \<noteq> []"
      then have "length (last ps) \<le> length (concat ps)"
        by (cases ps rule: rev_cases) auto
      then show False using Cons.prems(4) rest \<open>ps \<noteq> []\<close> by simp
    qed
    moreover have "length r1 \<le> length p" using feed_rest_length [OF one] Stop_All by simp
    ultimately show ?thesis using parse Stop_All rest len pk
      by (intro exI [of _ "blit b 0 (cells r1)"])
         (simp add: run finish_parse_def packet_def holds_def blit_def)
  qed
qed

section \<open>Properties of the parser\<close>

text \<open>C4: However the bytes of a well-formed request (an array of one or more non-empty bulk
  strings) are cut into packets of at most BUFFER_SIZE bytes, parsing the packets one after the
  other completes the request with exactly its arguments in \<^verbatim>\<open>argv\<close>, each NUL-terminated, and keeps
  the bytes of the next request that came with the last packet at the front of the read buffer.\<close>

theorem packets_decode_request:
  assumes "idle d" and "fresh_buffer d" and "good_args args" and "mallocs_ok s"
    and "concat ps = resp_request args @ extra" and "\<forall>p \<in> set ps. packet p"
    and "length extra < length (last ps)"
  shows "\<exists>d' s'. deliver ps d s = (Ret d', s') \<and> exit_status d' = ALL_READ \<and>
           argc d' = int (length args) \<and> argv d' = Ptr (map stored_arg args) \<and>
           holds d' extra \<and> int (length (read_buffer d')) = BUFFER_SIZE"
proof -
  let ?d = "args_state (length args) args d"
  let ?s = "s\<lparr>mallocs := drop (1 + 2 * length args) (mallocs s)\<rparr>"
  have "feed (concat ps) d s = (Ret (Stop_All, ?d, extra), ?s)"
    using feed_request [OF assms(1,3,4)] assms(5) by (simp add: feed_append run)
  moreover have "ps \<noteq> []" using assms(5) by (auto simp: resp_request_def header_def)
  ultimately obtain b where "length b = 200"
    "holds (with_buffer b (int (length extra)) ?d) extra"
    "deliver ps d s = (Ret (with_buffer b (int (length extra)) ?d\<lparr>exit_status := ALL_READ\<rparr>), ?s)"
    using deliver_feed assms(1,2,6,7) unfolding idle_def by blast
  then show ?thesis by (auto simp: args_state_def holds_def)
qed

definition example_conn :: Tsocket_read_data where
  "example_conn = \<lparr>argv = NULL, argc = -1, cur_count_argv = 0, cur_buffer_size = 0,
     parsing = \<lparr>parsing_num = 0, is_negative = False, parsing_str = NULL, size_str = 0, cur_size_str = 0\<rparr>,
     read_buffer = replicate 200 None, read_status = ARRAY_WAIT, exit_status = NOT_ALL\<rparr>"

lemma packets_decode_request_witness:
  "\<exists>d' s'. deliver [''*1'' @ [CR], [LF] @ ''$4'' @ CRLF @ ''PI'', ''NG'' @ CRLF @ ''*2''] example_conn
       \<lparr>error_returns = False, mallocs = []\<rparr> = (Ret d', s') \<and> exit_status d' = ALL_READ \<and>
     argc d' = int (length [''PING'']) \<and> argv d' = Ptr (map stored_arg [''PING'']) \<and>
     holds d' ''*2'' \<and> int (length (read_buffer d')) = BUFFER_SIZE"
proof (rule packets_decode_request)
  show "concat [''*1'' @ [CR], [LF] @ ''$4'' @ CRLF @ ''PI'', ''NG'' @ CRLF @ ''*2''] =
      resp_request [''PING''] @ ''*2''"
    by code_simp
qed (simp_all add: idle_def fresh_buffer_def good_args_def example_conn_def mallocs_ok_def packet_def)

text \<open>C19: A call of the parser that reports ALL consumed at least one byte of the buffer, and one
  that reports NOT\_ALL emptied it.  (This is what makes the request loop of \<^verbatim>\<open>on_read_cb\<close> end.)\<close>

theorem parse_cli_mes_progress:
  assumes "holds d cs" and "cs \<noteq> []" and "parse_cli_mes d s = (Ret d', s')"
  shows "(exit_status d' = ALL_READ \<longrightarrow> (\<exists>rest. holds d' rest \<and> length rest < length cs)) \<and>
         (exit_status d' = NOT_ALL \<longrightarrow> cur_buffer_size d' = 0)"
proof -
  obtain v d1 r where f: "feed cs d s = (Ret (v, d1, r), s')" and d': "d' = finish_parse (v, d1, r)"
    using assms(3) parse_cli_mes_feed [OF assms(1,2), of s]
    by (auto simp: run split: prod.splits outcome.splits)
  show ?thesis
  proof (cases v)
    case Go
    then show ?thesis by (simp add: d' finish_parse_def)
  next
    case Stop_Err
    then have "exit_status d1 = ERR" using feed_Stop_Err f by blast
    then show ?thesis by (simp add: d' finish_parse_def Stop_Err)
  next
    case Stop_All
    have "length r < length cs" using feed_rest_length [OF f] Stop_All by simp
    moreover have "length cs \<le> length (read_buffer d1)"
      using feed_frame [OF f] assms(1) by (simp add: holds_def)
    ultimately have "holds d' r" "length r < length cs"
      by (auto simp: d' Stop_All finish_parse_def holds_def blit_def)
    then show ?thesis by (auto simp: d' Stop_All finish_parse_def)
  qed
qed

lemma parse_cli_mes_progress_witness:
  "\<exists>d' s'. parse_cli_mes (receive ''*2'' example_conn) \<lparr>error_returns = False, mallocs = []\<rparr> =
       (Ret d', s') \<and>
     (exit_status d' = ALL_READ \<longrightarrow> (\<exists>rest. holds d' rest \<and> length rest < length ''*2'')) \<and>
     (exit_status d' = NOT_ALL \<longrightarrow> cur_buffer_size d' = 0)"
proof -
  let ?s = "\<lparr>error_returns = False, mallocs = []\<rparr>"
  have fb: "fresh_buffer example_conn" and pk: "packet ''*2''"
    by (simp_all add: fresh_buffer_def packet_def example_conn_def)
  have "\<exists>d'. feed ''*2'' example_conn ?s = (Ret (Go, d', []), ?s)"
    by (simp add: run example_conn_def parse_sym_def push_digit_def int_range_def is_digit_def
        digit_val_def)
  then obtain d' where "parse_cli_mes (receive ''*2'' example_conn) ?s = (Ret d', ?s)"
    using parse_packet [OF fb pk] by blast
  then show ?thesis
    using parse_cli_mes_progress [OF receive_holds [OF fb pk], of ?s d' ?s] by auto
qed

text \<open>C21: A zero-length argument is not parsed: the automaton waits for a first byte of the string,
  stores the carriage return in the one-byte buffer, and then writes the line feed past its end.
  So every request that contains an empty bulk string runs into an out-of-bounds write, whatever
  the arguments before and after it are.\<close>

theorem empty_argument_overflows:
  assumes "idle d" and "mallocs_ok s" and "pre = [] \<or> good_args pre"
    and "int (length (pre @ [] # post)) < 2 ^ 31"
  shows "\<exists>s'. feed (resp_request (pre @ [] # post)) d s = (Fault Out_Of_Bounds, s')"
proof -
  let ?n = "length (pre @ [] # post)" and ?s = "s\<lparr>mallocs := tl (mallocs s)\<rparr>"
  let ?s' = "?s\<lparr>mallocs := drop (2 * length pre) (mallocs ?s)\<rparr>"
  have "feed (header ?n) d s = (Ret (Go, args_state ?n [] d, []), ?s)"
    using assms by (intro feed_request_header) auto
  moreover have "feed (concat (map arg_frame pre)) (args_state ?n [] d) ?s =
      (Ret (Go, args_state ?n ([] @ pre) d, []), ?s')"
    using assms by (intro feed_args_prefix) (auto simp: good_args_def)
  moreover have "\<exists>s2. feed (arg_frame [] @ concat (map arg_frame post)) (args_state ?n ([] @ pre) d) ?s' =
      (Fault Out_Of_Bounds, s2)"
    using assms(4) mallocs_ok_grants [OF mallocs_ok_tl(2) [OF assms(2), of "Suc (2 * length pre)"]]
    by (simp add: drop_Suc arg_frame_def bulk_def dec.simps parse_sym_def push_digit_def end_number_def
        string_sym_def int_range_def is_digit_def digit_val_def args_state_def Let_def run blit_def)
  ultimately obtain s2 where "feed (header ?n @ concat (map arg_frame pre) @
      arg_frame [] @ concat (map arg_frame post)) d s = (Fault Out_Of_Bounds, s2)"
    using feed_seq by metis
  then show ?thesis by (auto simp: resp_request_def)
qed

lemma empty_argument_overflows_witness:
  "\<exists>s'. feed (resp_request ([''SET'', ''k''] @ [] # [])) example_conn
     \<lparr>error_returns = False, mallocs = []\<rparr> = (Fault Out_Of_Bounds, s')"
  by (rule empty_argument_overflows)
     (simp_all add: idle_def example_conn_def mallocs_ok_def good_args_def)

end
