(* ===== verification/Redis_Proxy.thy ===== *)
theory Redis_Proxy
  imports Redis_Reqv_Converter Work_With_Socket
begin

text \<open>
  \<^verbatim>\<open>redis_proxy.c\<close> and the socket functions of \<^verbatim>\<open>work_with_socket.c\<close>: the connections and the libev
  callbacks.  A client is what its two watchers share: the descriptor, the \<^verbatim>\<open>Tsocket_data\<close> object
  they both point to, and which of them is started.  What the kernel answers (the bytes of a
  \<^verbatim>\<open>read\<close>, the count of a \<^verbatim>\<open>write\<close>, the descriptor of an \<^verbatim>\<open>accept\<close>) is an argument of the callback.
\<close>

section \<open>State\<close>

record client =
  io_fd :: int
  io_data :: "Tsocket_data ptr"
  reader_on :: bool
  writer_on :: bool
  fd_open :: bool

record ('h, 'd) world = "('h, 'd) log_st" +
  clients :: "client list"

definition get_client :: "nat \<Rightarrow> (('h, 'd, 'e) world_scheme, client) prog" where
  "get_client i =
     bnd (rd clients) (\<lambda>cs. if i < length cs then ret (cs ! i) else flt Out_Of_Bounds)"

definition upd_client :: "nat \<Rightarrow> (client \<Rightarrow> client) \<Rightarrow> (('h, 'd, 'e) world_scheme, unit) prog" where
  "upd_client i f = bnd (get_client i) (\<lambda>c. wr (\<lambda>s. s\<lparr>clients := (clients s)[i := f c]\<rparr>))"

text \<open>\<^verbatim>\<open>io_handle->data\<close>, read and written.\<close>

definition get_data :: "nat \<Rightarrow> (('h, 'd, 'e) world_scheme, Tsocket_data) prog" where
  "get_data i = bnd (get_client i) (\<lambda>c. deref (io_data c))"

definition set_data :: "nat \<Rightarrow> Tsocket_data \<Rightarrow> (('h, 'd, 'e) world_scheme, unit) prog" where
  "set_data i d = bnd (get_data i) (\<lambda>_. upd_client i (\<lambda>c. c\<lparr>io_data := Ptr d\<rparr>))"

section \<open>Sockets\<close>

text \<open>\<^verbatim>\<open>for(i = 0; i < argc; ++i) free(argv[i])\<close>: every entry must have been assigned.\<close>

fun free_args :: "nat \<Rightarrow> buffer ptr option list \<Rightarrow> ('s, unit) prog" where
  "free_args 0 arr = ret ()"
| "free_args (Suc n) [] = flt Out_Of_Bounds"
| "free_args (Suc n) (None # arr) = flt Uninitialised"
| "free_args (Suc n) (Some p # arr) = sq (free_ptr p) (free_args n arr)"

definition free_argv :: "Tsocket_read_data \<Rightarrow> ('s, unit) prog" where
  "free_argv d =
     sq (if argc d \<le> 0 then ret () else bnd (deref (argv d)) (\<lambda>arr. free_args (nat (argc d)) arr))
     (free_ptr (argv d))"

text \<open>The second \<^verbatim>\<open>close\<close> of the descriptor has no further effect here.\<close>

definition close_connection :: "nat \<Rightarrow> (('h, 'd, 'e) world_scheme, unit) prog" where
  "close_connection i =
     bnd (get_data i) (\<lambda>d.
     sq (upd_client i (\<lambda>c. c\<lparr>writer_on := False, reader_on := False, fd_open := False\<rparr>))
     (sq (free_argv (read_data d))
     (sq (free_ptr (answer (write_data d)))
     (upd_client i (\<lambda>c. c\<lparr>io_data := Dangling\<rparr>)))))"

text \<open>\<^verbatim>\<open>read\<close> delivers \<open>Some bytes\<close> (none at end of file) or fails; it never delivers more than
  asked for, and so nothing when the buffer is full.\<close>

definition read_socket :: "nat \<Rightarrow> string option \<Rightarrow> (('h, 'd, 'e) world_scheme, int) prog" where
  "read_socket i input =
     bnd (get_data i) (\<lambda>d.
     let r = read_data d; n = BUFFER_SIZE - cur_buffer_size r in
     case input of
       None \<Rightarrow> sq (close_connection i) (ret (-1))
     | Some bytes \<Rightarrow>
         let got = take (nat n) bytes in
         if got = [] then sq (close_connection i) (ret (-1))
         else
           bnd (put (read_buffer r) (cur_buffer_size r) got) (\<lambda>b.
           sq (set_data i (d\<lparr>read_data := r\<lparr>read_buffer := b\<rparr>\<rparr>))
           (ret (int (length got)))))"

definition write_socket :: "int \<Rightarrow> ('e c_env_scheme, int) prog" where
  "write_socket count =
     (if count = -1 then sq (ereport_ERROR ''write err'') (ret (-1)) else ret count)"

text \<open>What the two calls of \<^verbatim>\<open>fcntl\<close> answer, to F\_GETFL and to F\_SETFL, is the argument.\<close>

fun socket_set_nonblock :: "int \<times> int \<Rightarrow> bool" where
  "socket_set_nonblock (flags, result) = (if flags < 0 then False else if result < 0 then False else True)"

text \<open>What \<^verbatim>\<open>accept\<close>, \<^verbatim>\<open>fcntl\<close> and the two \<^verbatim>\<open>setsockopt\<close>s answer.\<close>

record accept_env =
  accepted :: int
  nonblock_fcntl :: "int \<times> int"
  reuseaddr_ok :: bool
  nodelay_ok :: bool

definition get_socket :: "accept_env \<Rightarrow> ('e c_env_scheme, int) prog" where
  "get_socket env =
     (if accepted env = -1 then sq (ereport_ERROR ''on_accept_cb()'') (ret (-1))
      else if \<not> socket_set_nonblock (nonblock_fcntl env) then ret (-1)
      else if \<not> reuseaddr_ok env then sq (ereport_ERROR ''socket()'') (ret (-1))
      else if \<not> nodelay_ok env then sq (ereport_ERROR ''setsockopt TCP_NODELAY'') (ret (-1))
      else ret (accepted env))"

section \<open>The read callback\<close>

text \<open>The head of the loop: after a finished request the connection is reset for the next one.\<close>

definition reset_request :: "Tsocket_read_data \<Rightarrow> ('s, Tsocket_read_data) prog" where
  "reset_request r =
     (if exit_status r = ALL_READ then
        let r = r\<lparr>read_status := ARRAY_WAIT\<rparr> in
        sq (free_argv r)
        (ret (r\<lparr>argv := NULL, argc := -1,
                parsing := (parsing r)\<lparr>parsing_str := NULL, parsing_num := 0\<rparr>,
                exit_status := NOT_ALL\<rparr>))
      else ret r)"

text \<open>The tail of the loop: the reply goes behind what is still to be written.  Neither allocation
  is tested before it is written to; \<^verbatim>\<open>realloc\<close> keeps as many of the old bytes as fit.\<close>

definition realloc :: "buffer \<Rightarrow> int \<Rightarrow> ('e c_env_scheme, buffer ptr) prog" where
  "realloc old n =
     bnd (malloc n) (\<lambda>p. case p of
       Ptr b \<Rightarrow> ret (Ptr (take (nat n) old @ drop (length old) b))
     | q \<Rightarrow> ret q)"

definition queue_answer ::
    "buffer ptr \<Rightarrow> int \<Rightarrow> Tsocket_write_data \<Rightarrow> ('e c_env_scheme, Tsocket_write_data) prog" where
  "queue_answer rd_answer size_rd_answer w =
     bnd (if answer w = NULL then bnd (malloc size_rd_answer) (\<lambda>p. ret (p, 0))
          else bnd (deref (answer w)) (\<lambda>old.
               bnd (realloc old (size_answer w + size_rd_answer)) (\<lambda>p. ret (p, size_answer w))))
     (\<lambda>(p, at).
      bnd (deref p) (\<lambda>b.
      bnd (deref rd_answer) (\<lambda>rd_b.
      bnd (memcpy b at rd_b 0 size_rd_answer) (\<lambda>b.
      bnd (chk_int (at + size_rd_answer)) (\<lambda>n.
      ret \<lparr>answer = Ptr b, size_answer = n\<rparr>)))))"

text \<open>One iteration: \<open>Break\<close> leaves the loop, \<open>Return\<close> the callback, \<open>Next\<close> reaches its condition.\<close>

datatype iteration =
  Break Tsocket_data out out | Return Tsocket_data | Next Tsocket_data out out

definition serve_one :: "'h dynahash \<Rightarrow> 'd libpq \<Rightarrow> Tsocket_data \<Rightarrow> out \<Rightarrow> out \<Rightarrow>
    (('h, 'd, 'e) log_st_scheme, iteration) prog" where
  "serve_one D P d pg rd_out =
     bnd (reset_request (read_data d)) (\<lambda>r.
     bnd (parse_cli_mes r) (\<lambda>r.
     let d = d\<lparr>read_data := r\<rparr> in
     if exit_status r \<noteq> ALL_READ then ret (Break d pg rd_out)
     else
       bnd (if argc r = 0 then ret [] else deref (argv r)) (\<lambda>arr.
       bnd (process_redis_to_postgres D P (argc r) arr pg) (\<lambda>(arr, code, pg).
       let d = (if argc r = 0 then d else d\<lparr>read_data := r\<lparr>argv := Ptr arr\<rparr>\<rparr>) in
       if code = -1 then sq (ereport_ERROR ''process redis to postgres'') (ret (Return d))
       else
         bnd (define_type_req (fst pg) (fst rd_out) (snd pg) (snd rd_out)) (\<lambda>(code, rd_out).
         if code = -1 then sq (ereport_ERROR ''can't translate pg_answer to rd_answer'') (ret (Return d))
         else
           bnd (queue_answer (fst rd_out) (snd rd_out) (write_data d)) (\<lambda>w.
           ret (Next (d\<lparr>write_data := w\<rparr>) pg rd_out)))))))"

text \<open>A request that was completed took at least one byte from the buffer: the loop ends.\<close>

lemma parse_loop_shrinks:
  "parse_loop i d s = (Ret d', s') \<Longrightarrow> exit_status d' = ALL_READ \<Longrightarrow> 0 \<le> i \<Longrightarrow>
   0 \<le> cur_buffer_size d' \<and> cur_buffer_size d' < cur_buffer_size d - i"
proof (induction i d s rule: parse_loop.induct)
  case (1 i d s)
  obtain c where at: "peek (read_buffer d) i s = (Ret (Some c), s)"
    using 1(2) by (auto simp: run parse_loop.simps [of i d s] split: if_splits option.splits)
  obtain v d1 s1 where sym: "parse_sym c d s = (Ret (v, d1), s1)"
    using 1(2) at by (auto simp: parse_loop.simps [of i d s] split: prod.splits outcome.splits)
  have size: "cur_buffer_size d1 = cur_buffer_size d" using parse_sym_frame [OF sym] by simp
  show ?case
  proof (cases v)
    case Go
    then show ?thesis
      using 1(1) [OF at [symmetric] refl refl sym [symmetric] refl refl Go] 1(2-4) at sym size
      by (auto simp: parse_loop.simps [of i d s] split: if_splits)
  next
    case Stop_Err
    then show ?thesis
      using 1(2,3) at sym by (auto simp: parse_loop.simps [of i d s] dest!: parse_sym_Stop_Err)
  next
    case Stop_All
    then show ?thesis
      using 1(2,4) at sym size
      by (auto simp: parse_loop.simps [of i d s] replace_part_of_buffer_def run split: if_splits)
  qed
qed

lemma reset_request_size:
  "reset_request r s = (Ret r', s') \<Longrightarrow> cur_buffer_size r' = cur_buffer_size r"
  by (auto simp: reset_request_def Let_def run split: if_splits prod.splits outcome.splits)

lemma serve_one_shrinks:
  assumes "serve_one D P d pg rd_out s = (Ret (Next d' pg' rd'), s')"
  shows "0 \<le> cur_buffer_size (read_data d') \<and>
    cur_buffer_size (read_data d') < cur_buffer_size (read_data d)"
proof -
  obtain r s1 where r: "reset_request (read_data d) s = (Ret r, s1)"
    using assms by (auto simp: serve_one_def run split: prod.splits outcome.splits)
  obtain r2 s2 where r2: "parse_cli_mes r s1 = (Ret r2, s2)"
    using assms r by (auto simp: serve_one_def run split: prod.splits outcome.splits)
  have all: "exit_status r2 = ALL_READ"
    using assms r r2 by (auto simp: serve_one_def run Let_def split: if_splits)
  have "cur_buffer_size (read_data d') = cur_buffer_size r2"
    using assms r r2 all
    by (auto simp: serve_one_def run Let_def split: prod.splits outcome.splits if_splits)
  then show ?thesis
    using parse_loop_shrinks [of 0 r s1 r2 s2] r2 all reset_request_size [OF r]
    by (simp add: parse_cli_mes_def)
qed

text \<open>The \<^verbatim>\<open>do .. while\<close> loop.  The flag of the result: the loop was left normally.\<close>

function serve_loop :: "'h dynahash \<Rightarrow> 'd libpq \<Rightarrow> Tsocket_data \<Rightarrow> out \<Rightarrow> out \<Rightarrow> ('h, 'd, 'e) log_st_scheme \<Rightarrow>
    (bool \<times> Tsocket_data \<times> out \<times> out) outcome \<times> ('h, 'd, 'e) log_st_scheme" where
  "serve_loop D P d pg rd_out s =
     (case serve_one D P d pg rd_out s of
        (Ret (Break d' pg' rd'), s') \<Rightarrow> (Ret (True, d', pg', rd'), s')
      | (Ret (Return d'), s') \<Rightarrow> (Ret (False, d', pg, rd_out), s')
      | (Ret (Next d' pg' rd'), s') \<Rightarrow>
          if cur_buffer_size (read_data d') \<noteq> 0 then serve_loop D P d' pg' rd' s'
          else (Ret (True, d', pg', rd'), s')
      | (Exit e, s') \<Rightarrow> (Exit e, s')
      | (Fault u, s') \<Rightarrow> (Fault u, s'))"
  by pat_completeness auto
termination
  by (relation "measure (\<lambda>(D, P, d, pg, rd_out, s). nat (cur_buffer_size (read_data d)))")
     (auto dest!: serve_one_shrinks [OF sym])

declare serve_loop.simps [simp del]

text \<open>The C function stores the result of \<^verbatim>\<open>read_data\<close> into the connection before it tests for -1.\<close>

definition on_read_cb :: "'h dynahash \<Rightarrow> 'd libpq \<Rightarrow> nat \<Rightarrow> bool \<Rightarrow> string option \<Rightarrow>
    (('h, 'd, 'e) world_scheme, unit) prog" where
  "on_read_cb D P i ev_error input =
     (if ev_error then close_connection i
      else
        bnd (read_socket i input) (\<lambda>n.
        bnd (get_data i) (\<lambda>d.
        let d = d\<lparr>read_data := (read_data d)\<lparr>cur_buffer_size := n\<rparr>\<rparr> in
        sq (set_data i d)
        (if n = -1 then ret ()
         else
           bnd (serve_loop D P d (NULL, 0) (NULL, 0)) (\<lambda>(normal, d, pg, rd_out).
           sq (set_data i d)
           (if \<not> normal then ret ()
            else
              sq (if 0 < size_answer (write_data d) then upd_client i (\<lambda>c. c\<lparr>writer_on := True\<rparr>) else ret ())
              (sq (free_ptr (fst pg)) (free_ptr (fst rd_out)))))))))"

section \<open>The other callbacks\<close>

text \<open>\<^verbatim>\<open>memcpy\<close> inside one object: the two regions must not overlap.\<close>

definition memcpy_within :: "buffer \<Rightarrow> int \<Rightarrow> int \<Rightarrow> int \<Rightarrow> ('s, buffer) prog" where
  "memcpy_within b d s n =
     (if 0 < n \<and> abs (d - s) < n then flt Overlapping_Copy else memcpy b d b s n)"

definition on_write_cb :: "nat \<Rightarrow> int \<Rightarrow> (('h, 'd, 'e) world_scheme, unit) prog" where
  "on_write_cb i count =
     bnd (get_data i) (\<lambda>d.
     let w = write_data d in
     bnd (write_socket count) (\<lambda>byte_write.
     if byte_write = -1 then ret ()
     else if byte_write = size_answer w then
       sq (upd_client i (\<lambda>c. c\<lparr>writer_on := False\<rparr>))
       (set_data i (d\<lparr>write_data := w\<lparr>size_answer := 0\<rparr>\<rparr>))
     else
       let w = w\<lparr>size_answer := size_answer w - byte_write\<rparr> in
       bnd (deref (answer w)) (\<lambda>b.
       bnd (memcpy_within b 0 byte_write (size_answer w - byte_write)) (\<lambda>b.
       set_data i (d\<lparr>write_data := w\<lparr>answer := Ptr b\<rparr>\<rparr>)))))"

text \<open>A new connection.  The fields that \<^verbatim>\<open>on_accept_cb\<close> leaves indeterminate are assigned before
  they are read; they are given arbitrary values here.  \<^verbatim>\<open>sizeof(Tsocket_data)\<close> is 288,
  \<^verbatim>\<open>sizeof(struct ev_io)\<close> is 48.\<close>

definition new_data :: Tsocket_data where
  "new_data = \<lparr>write_data = \<lparr>answer = NULL, size_answer = 0\<rparr>,
     read_data = \<lparr>argv = NULL, argc = -1, cur_count_argv = 0, cur_buffer_size = 0,
       parsing = \<lparr>parsing_num = 0, is_negative = False, parsing_str = NULL, size_str = 0, cur_size_str = 0\<rparr>,
       read_buffer = replicate (nat BUFFER_SIZE) None, read_status = ARRAY_WAIT, exit_status = NOT_ALL\<rparr>\<rparr>"

definition on_accept_cb :: "accept_env \<Rightarrow> (('h, 'd, 'e) world_scheme, unit) prog" where
  "on_accept_cb env =
     bnd (malloc 288) (\<lambda>data.
     if data = NULL then sq (ereport_ERROR ''CAN'T MALLOC'') (ret ())
     else
       bnd (get_socket env) (\<lambda>socket_fd.
       if socket_fd = -1 then ret ()
       else
         bnd (malloc 48) (\<lambda>read_io_handle.
         if read_io_handle = NULL then sq (ereport_ERROR ''CAN't CREATE CLIENT'') (ret ())
         else
           bnd (malloc 48) (\<lambda>write_io_handle.
           if write_io_handle = NULL then sq (ereport_ERROR ''CAN't CREATE CLIENT'') (ret ())
           else
             wr (\<lambda>s. s\<lparr>clients := clients s @
               [\<lparr>io_fd = socket_fd, io_data = Ptr new_data, reader_on = True, writer_on = False,
                 fd_open = True\<rparr>]\<rparr>)))))"

definition on_timer_timeout_cb :: "'d libpq \<Rightarrow> (('h, 'd, 'e) log_st_scheme, unit) prog" where
  "on_timer_timeout_cb P = bnd (sync_with_db P) (\<lambda>r. ret ())"

section \<open>The event loop\<close>

text \<open>What libev can report, with the kernel's answer to the call the callback makes.\<close>

datatype event =
  Accept accept_env
| Readable nat bool "string option"
| Writable nat int
| Timeout

definition handle :: "'h dynahash \<Rightarrow> 'd libpq \<Rightarrow> event \<Rightarrow> (('h, 'd, 'e) world_scheme, unit) prog" where
  "handle D P e = (case e of
       Accept env \<Rightarrow> on_accept_cb env
     | Readable i ev_error input \<Rightarrow> on_read_cb D P i ev_error input
     | Writable i count \<Rightarrow> on_write_cb i count
     | Timeout \<Rightarrow> on_timer_timeout_cb P)"

text \<open>libev runs a callback only for a started watcher, the timer only in the deferred regime;
  a \<^verbatim>\<open>write\<close> accepts at most what it is given.\<close>

definition enabled :: "('h, 'd, 'e) world_scheme \<Rightarrow> event \<Rightarrow> bool" where
  "enabled s e = (case e of
       Accept env \<Rightarrow> True
     | Readable i ev_error input \<Rightarrow> i < length (clients s) \<and> reader_on (clients s ! i)
     | Writable i count \<Rightarrow> i < length (clients s) \<and> writer_on (clients s ! i) \<and> -1 \<le> count \<and>
         (case io_data (clients s ! i) of Ptr d \<Rightarrow> count \<le> size_answer (write_data d) | _ \<Rightarrow> True)
     | Timeout \<Rightarrow> caching_regime (config s) = DEFFER_DUMP)"

inductive ev_step :: "'h dynahash \<Rightarrow> 'd libpq \<Rightarrow> ('h, 'd, 'e) world_scheme \<Rightarrow> event \<Rightarrow>
    ('h, 'd, 'e) world_scheme \<Rightarrow> bool" for D P where
  step: "enabled s e \<Longrightarrow> handle D P e s = (Ret (), s') \<Longrightarrow> ev_step D P s e s'"

inductive ev_run :: "'h dynahash \<Rightarrow> 'd libpq \<Rightarrow> ('h, 'd, 'e) world_scheme \<Rightarrow> event list \<Rightarrow>
    ('h, 'd, 'e) world_scheme \<Rightarrow> bool" for D P where
  ev_nil: "ev_run D P s [] s"
| ev_cons: "ev_step D P s e s' \<Longrightarrow> ev_run D P s' es s'' \<Longrightarrow> ev_run D P s (e # es) s''"

inductive_simps ev_step_iff: "ev_step D P s e s'"
inductive_cases ev_run_NilE [elim!]: "ev_run D P s [] s'"
inductive_cases ev_run_ConsE [elim!]: "ev_run D P s (e # es) s'"

end
