(* ===== verification/Request_Stream.thy ===== *)
theory Request_Stream
  imports Work_With_Socket
begin

text \<open>
  The parser on a stream: what a connection still has to receive.  \<open>awaits d args rest\<close> says that the
  request \<open>args\<close> is complete as soon as the bytes \<open>rest\<close> have come, whenever they come: between two
  packets other requests are served and the allocator moves on, which \<open>mirrors\<close> shows the parser
  does not notice.
\<close>

section \<open>The parser does not see the rest of the process\<close>

definition bare :: c_env where
  "bare = \<lparr>error_returns = False, mallocs = []\<rparr>"

definition mirrors :: "(c_env, 'a) prog \<Rightarrow> ('e c_env_scheme, 'a) prog \<Rightarrow> bool" where
  "mirrors m0 m \<longleftrightarrow> (\<forall>x s1. m0 bare = (Ret x, s1) \<longrightarrow>
     s1 = bare \<and> (\<forall>s. mallocs_ok s \<longrightarrow> (\<exists>j. m s = (Ret x, s\<lparr>mallocs := drop j (mallocs s)\<rparr>))))"

named_theorems mirror \<open>programs that mirror themselves\<close>

lemma mirrors_ret [mirror]: "mirrors (ret x) (ret x)"
  by (auto simp: mirrors_def run intro: exI [of _ 0])

lemma mirrors_flt [mirror]: "mirrors (flt u) m"
  by (simp add: mirrors_def run)

lemma mirrors_chk_int [mirror]: "mirrors (chk_int i) (chk_int i)"
  by (auto simp: mirrors_def run intro: exI [of _ 0])

lemma mirrors_put [mirror]: "mirrors (put b i v) (put b i v)"
  by (auto simp: mirrors_def run intro: exI [of _ 0])

lemma mirrors_memcpy [mirror]: "mirrors (memcpy b i c j n) (memcpy b i c j n)"
  by (auto simp: mirrors_def run intro: exI [of _ 0])

lemma mirrors_deref [mirror]: "mirrors (deref p) (deref p)"
  by (cases p) (auto simp: mirrors_def run intro: exI [of _ 0])

lemma mirrors_malloc [mirror]: "mirrors (malloc n) (malloc n)"
  by (auto simp: mirrors_def run bare_def malloc_grants_def mallocs_ok_def drop_Suc intro!: exI [of _ 1])
     (auto split: list.splits simp: no_refusal_def)

lemma mirrors_bnd [mirror]:
  assumes "mirrors m0 m" and "\<And>x. mirrors (f0 x) (f x)"
  shows "mirrors (bnd m0 f0) (bnd m f)"
  unfolding mirrors_def
proof (intro allI impI)
  fix y s2 assume "bnd m0 f0 bare = (Ret y, s2)"
  then obtain x s1 where m0: "m0 bare = (Ret x, s1)" and f0: "f0 x s1 = (Ret y, s2)"
    by (auto simp: run split: prod.splits outcome.splits)
  then have s1: "s1 = bare" using assms(1) by (simp add: mirrors_def)
  show "s2 = bare \<and> (\<forall>s. mallocs_ok s \<longrightarrow> (\<exists>j. bnd m f s = (Ret y, s\<lparr>mallocs := drop j (mallocs s)\<rparr>)))"
  proof (intro conjI allI impI)
    show "s2 = bare" using assms(2) [of x] f0 s1 by (simp add: mirrors_def)
  next
    fix s :: "'b c_env_scheme" assume ok: "mallocs_ok s"
    obtain j where j: "m s = (Ret x, s\<lparr>mallocs := drop j (mallocs s)\<rparr>)"
      using assms(1) m0 ok by (auto simp: mirrors_def)
    have ok': "mallocs_ok (s\<lparr>mallocs := drop j (mallocs s)\<rparr>)" for j using ok by simp
    obtain k where "f x (s\<lparr>mallocs := drop j (mallocs s)\<rparr>) =
        (Ret y, s\<lparr>mallocs := drop j (mallocs s)\<rparr>\<lparr>mallocs := drop k (drop j (mallocs s))\<rparr>)"
      using assms(2) [of x, unfolded mirrors_def, rule_format, OF f0 [unfolded s1]] ok' [of j] by auto
    then show "\<exists>j. bnd m f s = (Ret y, s\<lparr>mallocs := drop j (mallocs s)\<rparr>)"
      using j by (auto simp: run)
  qed
qed

lemma mirrors_if [mirror]:
  "mirrors m0 m \<Longrightarrow> mirrors n0 n \<Longrightarrow> mirrors (if b then m0 else n0) (if b then m else n)"
  by simp

lemma mirrors_push_digit [mirror]: "mirrors (push_digit c d) (push_digit c d)"
  unfolding push_digit_def by (intro mirror)

lemma mirrors_store_arg [mirror]: "mirrors (store_arg p d) (store_arg p d)"
  unfolding store_arg_def by (intro mirror)

lemma mirrors_end_number [mirror]: "mirrors (end_number d) (end_number d)"
  unfolding end_number_def Let_def by (intro mirror)

lemma mirrors_string_sym [mirror]: "mirrors (string_sym c d) (string_sym c d)"
  unfolding string_sym_def Let_def by (intro mirror)

lemma mirrors_parse_sym [mirror]: "mirrors (parse_sym c d) (parse_sym c d)"
  unfolding parse_sym_def by (intro mirror)

lemma mirrors_feed: "mirrors (feed cs d) (feed cs d)"
proof (induction cs arbitrary: d)
  case Nil
  show ?case by (simp add: mirrors_ret)
next
  case (Cons c cs)
  show ?case
    unfolding feed.simps
    by (intro mirrors_bnd mirrors_parse_sym) (auto simp: Cons.IH mirrors_ret split: prod.splits)
qed

lemma feed_anywhere:
  assumes "feed cs d bare = (Ret x, s1)" and "mallocs_ok s"
  shows "\<exists>j. feed cs d s = (Ret x, s\<lparr>mallocs := drop j (mallocs s)\<rparr>)"
  using mirrors_feed [of cs d] assms unfolding mirrors_def by blast

section \<open>What is still to come\<close>

definition awaits :: "Tsocket_read_data \<Rightarrow> string list \<Rightarrow> string \<Rightarrow> bool" where
  "awaits d args rest \<longleftrightarrow> exit_status d = NOT_ALL \<and>
     (\<exists>d'. feed rest d bare = (Ret (Stop_All, d', []), bare) \<and> argc d' = int (length args) \<and>
        argv d' = Ptr (map stored_arg args))"

lemma bare_ok [simp]: "mallocs_ok bare" "bare\<lparr>mallocs := drop n (mallocs bare)\<rparr> = bare"
  by (simp_all add: bare_def mallocs_ok_def)

lemma idle_awaits: "idle d \<Longrightarrow> good_args args \<Longrightarrow> awaits d args (resp_request args)"
  using feed_request [of d args bare] by (auto simp: awaits_def args_state_def idle_def)

lemma awaits_nonempty: "awaits d args rest \<Longrightarrow> rest \<noteq> []"
  by (auto simp: awaits_def run)

text \<open>A part of the awaited bytes does not complete the request, and the rest still does.\<close>

lemma awaits_part:
  assumes "awaits d args (bs @ rest)" and "rest \<noteq> []"
  shows "\<exists>d1. feed bs d bare = (Ret (Go, d1, []), bare) \<and> awaits d1 args rest"
proof -
  obtain d' where d': "feed (bs @ rest) d bare = (Ret (Stop_All, d', []), bare)"
      "argc d' = int (length args)" "argv d' = Ptr (map stored_arg args)" and ex: "exit_status d = NOT_ALL"
    using assms(1) by (auto simp: awaits_def)
  obtain v d1 r s1 where f: "feed bs d bare = (Ret (v, d1, r), s1)"
    using d'(1) by (auto simp: feed_append run split: prod.splits outcome.splits)
  have s1: "s1 = bare" using mirrors_feed [of bs d, unfolded mirrors_def] f by blast
  have v: "v = Go" using d'(1) f assms(2) by (auto simp: feed_append run split: if_splits)
  have r: "r = []" using feed_Go_rest f v by blast
  have "exit_status d1 = NOT_ALL" using feed_exit_status [OF f] v ex by simp
  then show ?thesis using d' f s1 v r by (auto simp: awaits_def feed_append run)
qed

text \<open>The buffer fields do not matter to what is awaited.\<close>

lemma awaits_with_buffer [simp]: "awaits (with_buffer b n d) args rest = awaits d args rest"
proof -
  have undo: "with_buffer (read_buffer d) (cur_buffer_size d) (with_buffer b n d) = d"
    by (simp add: with_buffer_def)
  have "awaits (with_buffer b n d) args rest" if "awaits d args rest" for b n d
    using that by (auto simp: awaits_def feed_with_buffer run)
  then show ?thesis using undo by metis
qed

end
