(* ===== verification/Serving.thy ===== *)
theory Serving
  imports Redis_Proxy Request_Stream "HOL-Library.Sublist"
begin

text \<open>
  The read callback against its specification: a connection is a stream of requests, cut anywhere by
  the network and pipelined at will; \<open>expects\<close> says what is still to come, \<open>queued\<close> what is still to
  be written, and \<open>session\<close> what a sequence of requests answers.
\<close>

section \<open>A request is parsed when its last byte has come\<close>

lemma finish_parse_Go:
  "exit_status d = NOT_ALL \<Longrightarrow> finish_parse (Go, d, []) = with_buffer (read_buffer d) 0 d"
  by (cases d) (simp add: finish_parse_def with_buffer_def)

lemma parse_complete:
  assumes "holds d (rest @ bs)" and "awaits d args rest" and "mallocs_ok s"
  shows "\<exists>d' j. parse_cli_mes d s = (Ret d', s\<lparr>mallocs := drop j (mallocs s)\<rparr>) \<and>
    exit_status d' = ALL_READ \<and> argc d' = int (length args) \<and> argv d' = Ptr (map stored_arg args) \<and>
    holds d' bs \<and> length (read_buffer d') = length (read_buffer d)"
proof -
  obtain d1 where d1: "feed rest d bare = (Ret (Stop_All, d1, []), bare)"
      "argc d1 = int (length args)" "argv d1 = Ptr (map stored_arg args)"
    using assms(2) by (auto simp: awaits_def)
  obtain j where j: "feed rest d s = (Ret (Stop_All, d1, []), s\<lparr>mallocs := drop j (mallocs s)\<rparr>)"
    using feed_anywhere [OF d1(1) assms(3)] by blast
  have ne: "rest @ bs \<noteq> []" using awaits_nonempty [OF assms(2)] by simp
  have frame: "cur_buffer_size d1 = cur_buffer_size d" "read_buffer d1 = read_buffer d"
    using feed_frame [OF j] by simp_all
  have "parse_cli_mes d s = (Ret (finish_parse (Stop_All, d1, bs)), s\<lparr>mallocs := drop j (mallocs s)\<rparr>)"
    using parse_cli_mes_feed [OF assms(1) ne, of s] j by (simp add: feed_append run)
  moreover have "length bs \<le> length (read_buffer d)" using assms(1) by (simp add: holds_def)
  ultimately show ?thesis
    using d1 frame
    by (intro exI [of _ "finish_parse (Stop_All, d1, bs)"] exI [of _ j])
       (simp add: finish_parse_def holds_def blit_def)
qed

lemma parse_partial:
  assumes "holds d bs" and "bs \<noteq> []" and "awaits d args (bs @ rest)" and "rest \<noteq> []" and "mallocs_ok s"
  shows "\<exists>d' j. parse_cli_mes d s = (Ret d', s\<lparr>mallocs := drop j (mallocs s)\<rparr>) \<and>
    awaits d' args rest \<and> cur_buffer_size d' = 0 \<and> length (read_buffer d') = length (read_buffer d)"
proof -
  obtain d1 where d1: "feed bs d bare = (Ret (Go, d1, []), bare)" "awaits d1 args rest"
    using awaits_part [OF assms(3,4)] by blast
  obtain j where j: "feed bs d s = (Ret (Go, d1, []), s\<lparr>mallocs := drop j (mallocs s)\<rparr>)"
    using feed_anywhere [OF d1(1) assms(5)] by blast
  have "finish_parse (Go, d1, []) = with_buffer (read_buffer d1) 0 d1"
    using d1(2) by (intro finish_parse_Go) (simp add: awaits_def)
  then have "parse_cli_mes d s = (Ret (with_buffer (read_buffer d1) 0 d1), s\<lparr>mallocs := drop j (mallocs s)\<rparr>)"
    using parse_cli_mes_feed [OF assms(1,2), of s] j by (simp add: run)
  then show ?thesis
    using d1(2) feed_frame [OF j]
    by (intro exI [of _ "with_buffer (read_buffer d1) 0 d1"] exI [of _ j]) simp
qed

section \<open>Between two requests\<close>

definition at_boundary :: "Tsocket_read_data \<Rightarrow> bool" where
  "at_boundary d \<longleftrightarrow> idle d \<or> (exit_status d = ALL_READ \<and>
     (\<exists>arr. argv d = Ptr arr \<and> argc d = int (length arr) \<and> (\<forall>p \<in> set arr. \<exists>b. p = Some (Ptr b))))"

definition expects :: "Tsocket_read_data \<Rightarrow> string \<Rightarrow> string list list \<Rightarrow> bool" where
  "expects d stream reqs \<longleftrightarrow>
     (at_boundary d \<and> stream = concat (map resp_request reqs)) \<or>
     (\<exists>q qs rest. reqs = q # qs \<and> stream = rest @ concat (map resp_request qs) \<and>
        suffix rest (resp_request q) \<and> awaits d q rest)"

lemma free_args_owned: "\<forall>p \<in> set arr. \<exists>b. p = Some (Ptr b) \<Longrightarrow> free_args (length arr) arr = ret ()"
  by (induction arr) (auto simp: sq_def free_ptr_def)

lemma reset_boundary:
  assumes "at_boundary d"
  shows "\<exists>d'. reset_request d s = (Ret d', s) \<and> idle d' \<and> read_buffer d' = read_buffer d \<and>
    cur_buffer_size d' = cur_buffer_size d"
proof (cases "idle d")
  case True
  then show ?thesis by (auto simp: reset_request_def idle_def run)
next
  case False
  then obtain arr where arr: "exit_status d = ALL_READ" "argv d = Ptr arr" "argc d = int (length arr)"
      "\<forall>p \<in> set arr. \<exists>b. p = Some (Ptr b)"
    using assms by (auto simp: at_boundary_def)
  have "free_argv (d\<lparr>read_status := ARRAY_WAIT\<rparr>) s = (Ret (), s)"
    using arr by (simp add: free_argv_def free_args_owned [OF arr(4)] run)
  then have "reset_request d s = (Ret (d\<lparr>read_status := ARRAY_WAIT, argv := NULL, argc := -1,
      parsing := (parsing d)\<lparr>parsing_str := NULL, parsing_num := 0\<rparr>, exit_status := NOT_ALL\<rparr>), s)"
    using arr(1) by (simp add: reset_request_def Let_def run)
  then show ?thesis by (intro exI conjI, assumption) (simp_all add: idle_def)
qed

lemma expects_reset:
  assumes "expects d stream reqs" and "stream \<noteq> []" and "\<forall>q \<in> set reqs. good_args q"
  shows "\<exists>d' q qs rest. reset_request d s = (Ret d', s) \<and> reqs = q # qs \<and>
    stream = rest @ concat (map resp_request qs) \<and> suffix rest (resp_request q) \<and> awaits d' q rest \<and>
    read_buffer d' = read_buffer d \<and> cur_buffer_size d' = cur_buffer_size d"
proof (cases "at_boundary d \<and> stream = concat (map resp_request reqs)")
  case True
  then obtain q qs where reqs: "reqs = q # qs" using assms(2) by (cases reqs) auto
  obtain d' where "reset_request d s = (Ret d', s)" "idle d'" "read_buffer d' = read_buffer d"
      "cur_buffer_size d' = cur_buffer_size d"
    using reset_boundary [OF conjunct1 [OF True], of s] by (elim exE conjE) (rule that)
  moreover have "awaits d' q (resp_request q)"
    using idle_awaits [OF \<open>idle d'\<close>] assms(3) unfolding reqs by (meson list.set_intros(1))
  moreover have "stream = resp_request q @ concat (map resp_request qs)" using True reqs by simp
  moreover have "suffix (resp_request q) (resp_request q)" by simp
  ultimately show ?thesis using reqs by blast
next
  case False
  then obtain q qs rest where q: "reqs = q # qs" "stream = rest @ concat (map resp_request qs)"
      "suffix rest (resp_request q)" "awaits d q rest"
    using assms(1) by (auto simp: expects_def)
  then have "reset_request d s = (Ret d, s)" by (simp add: reset_request_def awaits_def run)
  then show ?thesis using q by blast
qed

section \<open>Replies are queued in order\<close>

definition queued :: "Tsocket_write_data \<Rightarrow> string \<Rightarrow> bool" where
  "queued w q \<longleftrightarrow> size_answer w = int (length q) \<and>
     (answer w = NULL \<and> q = [] \<or>
      (\<exists>b. answer w = Ptr b \<and> length q \<le> length b \<and> take (length q) b = cells q))"

lemma queue_answer_spec:
  assumes "queued w q" and "mallocs_ok s" and "length (q @ rep) < 2 ^ 31"
  shows "\<exists>w'. queue_answer (Ptr (cells rep)) (int (length rep)) w s =
      (Ret w', s\<lparr>mallocs := tl (mallocs s)\<rparr>) \<and> queued w' (q @ rep)"
proof (cases "answer w = NULL")
  case True
  then show ?thesis
    using assms by (auto simp: queued_def queue_answer_def run blit_def int_range_def)
next
  case False
  then obtain b where b: "answer w = Ptr b" "length q \<le> length b" "take (length q) b = cells q"
      "size_answer w = int (length q)"
    using assms(1) by (auto simp: queued_def)
  then show ?thesis
    using assms(2,3)
    by (auto simp: queued_def queue_answer_def realloc_def run blit_def int_range_def nat_add_distrib min_def)
qed

section \<open>A session\<close>

text \<open>What a sequence of requests answers, and the map after it.\<close>

fun session :: "string list list \<Rightarrow> (string \<rightharpoonup> string) \<Rightarrow> string \<times> (string \<rightharpoonup> string)" where
  "session [] u = ([], u)"
| "session (q # qs) u =
     (case command_spec (hd q) (tl q) u of
        None \<Rightarrow> ([], u)
      | Some (r, u') \<Rightarrow> (resp_encode r @ fst (session qs u'), snd (session qs u')))"

definition request_ok :: "string \<Rightarrow> dump_status \<Rightarrow> string list \<Rightarrow> bool" where
  "request_ok t R q \<longleftrightarrow> good_args q \<and> command_ok t R (hd q) (tl q)"

lemma command_spec_cases:
  assumes "command_ok t R cmd as"
  obtains (error) msg where "command_spec cmd as u = Some (Error_Reply msg, u)" "length msg < 20"
  | (get) k where "command_spec cmd as u = Some (get_answer (u k), u)"
  | (set) k v where "command_spec cmd as u = Some (Simple_String ''OK'', u(k \<mapsto> v))"
  | (del) "command_spec cmd as u = Some (Integer (fst (del_all as u)), snd (del_all as u))"
      "int (length as) < 2 ^ 31 - 1"
  | (ping) "command_spec cmd as u = Some (Simple_String ''PONG'', u)"
proof -
  let ?name = "map big_char cmd"
  have ok: "?name \<noteq> ''COMMAND''" "int (length as) < 2 ^ 31 - 1" using assms by (auto simp: command_ok_def Let_def)
  show thesis
  proof (cases "?name = ''SET''")
    case True
    show ?thesis
    proof (cases "length as = 2")
      case True
      then obtain k v where "as = [k, v]" by (auto simp: numeral_2_eq_2 length_Suc_conv)
      then show ?thesis using \<open>?name = ''SET''\<close> set by (simp add: command_spec_def)
    next
      case False
      then have "command_spec cmd as u = Some (Error_Reply ''syntax error'', u)"
        using \<open>?name = ''SET''\<close> by (auto simp: command_spec_def split: list.splits)
      then show ?thesis by (rule error) simp
    qed
  next
    case False
    note def = command_spec_def Let_def False ok(1)
    consider "?name = ''GET''" | "?name = ''DEL''" | "?name = ''PING''" | "?name \<notin> {''GET'', ''DEL'', ''PING''}"
      by blast
    then show ?thesis
    proof cases
      case 1
      then show ?thesis
        by (cases as) (auto intro: error [of "''syntax error''"] get [of "hd as"] simp: def)
    next
      case 2
      show ?thesis
      proof (cases "as = []")
        case True
        then show ?thesis using 2 by (intro error [of "''syntax error''"]) (simp_all add: def)
      next
        case False
        then show ?thesis using 2 ok(2) by (intro del) (simp_all add: command_spec_def Let_def case_prod_beta)
      qed
    next
      case 3
      then show ?thesis by (intro ping) (simp add: def)
    next
      case 4
      then show ?thesis by (intro error [of "''unknown command''"]) (simp_all add: def)
    qed
  qed
qed

lemma command_spec_defined: "command_ok t R cmd as \<Longrightarrow> \<exists>r u'. command_spec cmd as u = Some (r, u')"
  by (erule command_spec_cases [of t R cmd as u]) auto

lemma command_spec_fits:
  assumes "command_spec cmd as u = Some (r, u')" and "command_ok t R cmd as"
    and "\<And>k v. u k = Some v \<Longrightarrow> stored_ok v"
  shows "resp_fits r"
  using assms(2)
proof (cases rule: command_spec_cases [of t R cmd as u])
  case (get k)
  then show ?thesis
    using assms(1) assms(3) [of k] by (cases "u k") (auto simp: get_answer_def stored_ok_def strlen_def)
next
  case del
  have "fst (del_all as u) < 10 ^ 10"
    using del_all_bound [of as u] del(2) by simp
  then have "length (dec (fst (del_all as u))) \<le> 10" by (intro length_dec) simp_all
  then show ?thesis using del(1) assms(1) by simp
qed (use assms(1) in auto)

text \<open>One completed request through the converters into the write queue.\<close>

lemma serve_complete:
  fixes s :: "('h, 'd, 'e) log_st_scheme"
  assumes laws: "dynahash_laws D" "hstore_laws P hv" "table_ok t"
    and s: "service D hv t tn R s m u" and q: "request_ok t R q"
    and spec: "command_spec (hd q) (tl q) u = Some (r, u')"
    and reset: "reset_request (read_data d) s = (Ret d0, s)" and aw: "awaits d0 q rest"
    and h: "holds d0 (rest @ bs)" "length (read_buffer d0) = 200"
    and w: "queued (write_data d) pend" "length (pend @ resp_encode r) < 2 ^ 31"
  shows "\<exists>d' pg' rd' s' m'. serve_one D P d pg ro s = (Ret (Next d' pg' rd'), s') \<and>
    at_boundary (read_data d') \<and> holds (read_data d') bs \<and> length (read_buffer (read_data d')) = 200 \<and>
    queued (write_data d') (pend @ resp_encode r) \<and> service D hv t tn R s' m' u' \<and> kept s s' \<and>
    fst pg' \<noteq> Dangling \<and> fst rd' \<noteq> Dangling"
proof -
  obtain cmd as where qq: "q = cmd # as" using q by (cases q) (auto simp: request_ok_def good_args_def)
  have cmd: "command_ok t R cmd as" using q by (simp add: request_ok_def qq)
  obtain d1 j where d1: "parse_cli_mes d0 s = (Ret d1, s\<lparr>mallocs := drop j (mallocs s)\<rparr>)"
      "exit_status d1 = ALL_READ" "argc d1 = int (length as) + 1" "argv d1 = Ptr (arg_array (cmd # as))"
      "holds d1 bs" "length (read_buffer d1) = 200"
    using parse_complete [OF h(1) aw service_malloc(2) [OF s]] h(2) by (auto simp: qq arg_array_def)
  let ?s1 = "s\<lparr>mallocs := drop j (mallocs s)\<rparr>"
  have s1: "service D hv t tn R ?s1 m u"
    using serviceD(3) [OF s] by (intro service_frame [OF s]) (simp_all add: kept_def db_ok_def)
  obtain res s2 where run2: "process_redis_to_postgres D P (int (length as) + 1) (arg_array (cmd # as)) pg ?s1 =
        (Ret (arg_array (map big_char cmd # as), res), s2)"
      and ans: "answers_with D hv t tn R ?s1 r u' (Ret res, s2)"
    using process_redis_to_postgres_spec [OF laws s1 cmd] spec unfolding qq by fastforce
  obtain pg' m' where pg': "res = (0, pg')" "internal r pg'" "service D hv t tn R s2 m' u'" "kept ?s1 s2"
    using ans by (auto simp: answers_with_def)
  let ?s3 = "s2\<lparr>mallocs := tl (mallocs s2)\<rparr>"
  have fits: "resp_fits r"
    using command_spec_fits [OF _ cmd serviceD(5) [OF s]] spec unfolding qq by simp
  note def = define_type_req_internal [OF pg'(2) fits service_malloc(2) [OF pg'(3)]]
  have s3: "service D hv t tn R ?s3 m' u'" using service_malloc(1) [OF pg'(3)] .
  obtain w' where w': "queue_answer (Ptr (cells (resp_encode r))) (int (length (resp_encode r))) (write_data d) ?s3 =
      (Ret w', ?s3\<lparr>mallocs := tl (mallocs ?s3)\<rparr>)" "queued w' (pend @ resp_encode r)"
    using queue_answer_spec [OF w(1) service_malloc(2) [OF s3] w(2)] by blast
  let ?s4 = "?s3\<lparr>mallocs := tl (mallocs ?s3)\<rparr>"
  let ?r = "d1\<lparr>argv := Ptr (arg_array (map big_char cmd # as))\<rparr>"
  let ?d' = "d\<lparr>read_data := ?r, write_data := w'\<rparr>"
  have "serve_one D P d pg ro s = (Ret (Next ?d' pg'
      (Ptr (cells (resp_encode r)), int (length (resp_encode r)))), ?s4)"
    using d1(2-4) run2 pg'(1) w'(1) def [of "fst ro" "snd ro"]
    by (simp add: serve_one_def reset d1(1) Let_def run)
  moreover have "at_boundary ?r"
    using d1(2,3) by (auto simp: at_boundary_def arg_array_def)
  moreover have "holds ?r bs" "length (read_buffer ?r) = 200" using d1(5,6) by (simp_all add: holds_def)
  moreover have "service D hv t tn R ?s4 m' u'" using service_malloc(1) [OF s3] .
  moreover have "kept s ?s4" using pg'(4) by (simp add: kept_def)
  moreover have "fst pg' \<noteq> Dangling" using pg'(2) by (cases r) auto
  ultimately show ?thesis using w'(2) by (intro exI conjI) (assumption | simp)+
qed

section \<open>The loop serves everything that came\<close>

lemma session_append:
  assumes "\<forall>q \<in> set ds. request_ok t R q"
  shows "session (ds @ rs) u = (fst (session ds u) @ fst (session rs (snd (session ds u))),
    snd (session rs (snd (session ds u))))"
  using assms
proof (induction ds arbitrary: u)
  case (Cons q ds)
  obtain r u' where "command_spec (hd q) (tl q) u = Some (r, u')"
    using command_spec_defined [of t R "hd q" "tl q" u] Cons.prems by (auto simp: request_ok_def)
  then show ?case using Cons by simp
qed simp

text \<open>One iteration when the bytes at hand do not complete the awaited request.\<close>

lemma serve_partial:
  assumes s: "mallocs_ok s"
    and reset: "reset_request (read_data d) s = (Ret d0, s)" and aw: "awaits d0 q (bs @ rest)"
    and h: "holds d0 bs" "bs \<noteq> []" "length (read_buffer d0) = 200" and rest: "rest \<noteq> []"
  shows "\<exists>d' j. serve_one D P d pg ro s = (Ret (Break d' pg ro), s\<lparr>mallocs := drop j (mallocs s)\<rparr>) \<and>
    awaits (read_data d') q rest \<and> fresh_buffer (read_data d') \<and> write_data d' = write_data d"
proof -
  obtain d1 j where d1: "parse_cli_mes d0 s = (Ret d1, s\<lparr>mallocs := drop j (mallocs s)\<rparr>)"
      "awaits d1 q rest" "cur_buffer_size d1 = 0" "length (read_buffer d1) = 200"
    using parse_partial [OF h(1,2) aw rest s] h(3) by auto
  have "exit_status d1 \<noteq> ALL_READ" using d1(2) by (simp add: awaits_def)
  then have "serve_one D P d pg ro s =
      (Ret (Break (d\<lparr>read_data := d1\<rparr>) pg ro), s\<lparr>mallocs := drop j (mallocs s)\<rparr>)"
    by (simp add: serve_one_def reset d1(1) Let_def run)
  then show ?thesis
    using d1 by (intro exI [of _ "d\<lparr>read_data := d1\<rparr>"] exI [of _ j]) (simp add: fresh_buffer_def)
qed

lemma holds_reset:
  "holds d bs \<Longrightarrow> read_buffer d' = read_buffer d \<Longrightarrow> cur_buffer_size d' = cur_buffer_size d \<Longrightarrow> holds d' bs"
  by (simp add: holds_def)

lemma serve_loop_spec:
  fixes s :: "('h, 'd, 'e) log_st_scheme"
  assumes laws: "dynahash_laws D" "hstore_laws P hv" "table_ok t"
    and "service D hv t tn R s m u" and "\<forall>q \<in> set reqs. request_ok t R q"
    and "expects (read_data d) (bs @ later) reqs" and "holds (read_data d) bs" and "bs \<noteq> []"
    and "length (read_buffer (read_data d)) = 200" and "queued (write_data d) pend"
    and "length (pend @ fst (session reqs u)) < 2 ^ 31" and "fst pg \<noteq> Dangling" and "fst ro \<noteq> Dangling"
  shows "\<exists>ds rs d' pg' ro' s' m'. reqs = ds @ rs \<and>
    serve_loop D P d pg ro s = (Ret (True, d', pg', ro'), s') \<and>
    fst pg' \<noteq> Dangling \<and> fst ro' \<noteq> Dangling \<and>
    expects (read_data d') later rs \<and> fresh_buffer (read_data d') \<and>
    queued (write_data d') (pend @ fst (session ds u)) \<and>
    service D hv t tn R s' m' (snd (session ds u)) \<and> kept s s'"
  using assms(4-)
proof (induction "length bs" arbitrary: bs d s m u reqs pend pg ro rule: less_induct)
  case less
  note s = less.prems(1) and ok = less.prems(2)
  obtain d0 q qs rest where reset: "reset_request (read_data d) s = (Ret d0, s)" and reqs: "reqs = q # qs"
    and str: "bs @ later = rest @ concat (map resp_request qs)" and aw: "awaits d0 q rest"
    and suf: "suffix rest (resp_request q)" and buf: "read_buffer d0 = read_buffer (read_data d)" "cur_buffer_size d0 = cur_buffer_size (read_data d)"
    using expects_reset [OF less.prems(3), of s] less.prems(5) ok
    by (auto simp: request_ok_def)
  have h0: "holds d0 bs" "length (read_buffer d0) = 200"
    using holds_reset [OF less.prems(4) buf] less.prems(6) buf by simp_all
  have q: "request_ok t R q" using ok reqs by simp
  show ?case
  proof (cases "\<exists>bs'. bs = rest @ bs'")
    case False
    then obtain us where us: "rest = bs @ us" "later = us @ concat (map resp_request qs)" "us \<noteq> []"
      using str by (auto simp: append_eq_append_conv2)
    obtain d' j where d': "serve_one D P d pg ro s = (Ret (Break d' pg ro), s\<lparr>mallocs := drop j (mallocs s)\<rparr>)"
        "awaits (read_data d') q us" "fresh_buffer (read_data d')" "write_data d' = write_data d"
      using serve_partial [OF service_malloc(2) [OF s] reset _ h0(1) less.prems(5) h0(2) us(3)] aw us(1) by blast
    let ?s = "s\<lparr>mallocs := drop j (mallocs s)\<rparr>"
    have "service D hv t tn R ?s m u"
      using serviceD(3) [OF s] by (intro service_frame [OF s]) (simp_all add: kept_def db_ok_def)
    moreover have "kept s ?s" by (simp add: kept_def)
    moreover have "expects (read_data d') later reqs"
      using d'(2) us(2) reqs suffix_appendD [of bs us] suf unfolding us(1) expects_def by blast
    moreover have "serve_loop D P d pg ro s = (Ret (True, d', pg, ro), ?s)"
      by (subst serve_loop.simps) (simp add: d'(1))
    ultimately show ?thesis
      using d'(3,4) less.prems(7,9,10)
      by (intro exI [of _ "[]"] exI [of _ reqs] exI conjI) (assumption | simp)+
  next
    case True
    then obtain bs' where bs: "bs = rest @ bs'" by blast
    then have later: "bs' @ later = concat (map resp_request qs)" using str by simp
    obtain r u' where spec: "command_spec (hd q) (tl q) u = Some (r, u')"
      using command_spec_defined [of t R "hd q" "tl q" u] q by (auto simp: request_ok_def)
    have short: "length (pend @ resp_encode r) < 2 ^ 31"
      using less.prems(8) spec by (simp add: reqs)
    obtain d1 pg1 ro1 s1 m1 where d1: "serve_one D P d pg ro s = (Ret (Next d1 pg1 ro1), s1)"
        "at_boundary (read_data d1)" "holds (read_data d1) bs'" "length (read_buffer (read_data d1)) = 200"
        "queued (write_data d1) (pend @ resp_encode r)" "service D hv t tn R s1 m1 u'" "kept s s1"
        "fst pg1 \<noteq> Dangling" "fst ro1 \<noteq> Dangling"
      using serve_complete [OF laws s q spec reset aw _ h0(2) less.prems(7) short] h0(1) bs by blast
    show ?thesis
    proof (cases "bs' = []")
      case True
      then have "cur_buffer_size (read_data d1) = 0" using d1(3) by (simp add: holds_def)
      then have "serve_loop D P d pg ro s = (Ret (True, d1, pg1, ro1), s1)"
        by (subst serve_loop.simps) (simp add: d1(1))
      moreover have "expects (read_data d1) later qs" using d1(2) later True by (simp add: expects_def)
      moreover have "fresh_buffer (read_data d1)"
        using d1(4) \<open>cur_buffer_size (read_data d1) = 0\<close> by (simp add: fresh_buffer_def)
      ultimately show ?thesis
        using d1 reqs spec by (intro exI [of _ "[q]"] exI [of _ qs] exI conjI) (assumption | simp)+
    next
      case False
      have "length bs' < length bs" using bs awaits_nonempty [OF aw] by simp
      moreover have "expects (read_data d1) (bs' @ later) qs" using d1(2) later by (simp add: expects_def)
      moreover have "length ((pend @ resp_encode r) @ fst (session qs u')) < 2 ^ 31"
        using less.prems(8) spec by (simp add: reqs)
      moreover have "\<forall>q \<in> set qs. request_ok t R q" using ok reqs by simp
      ultimately obtain ds rs d2 pg2 ro2 s2 m2 where d2: "qs = ds @ rs"
          "serve_loop D P d1 pg1 ro1 s1 = (Ret (True, d2, pg2, ro2), s2)" "fst pg2 \<noteq> Dangling"
          "fst ro2 \<noteq> Dangling" "expects (read_data d2) later rs" "fresh_buffer (read_data d2)"
          "queued (write_data d2) ((pend @ resp_encode r) @ fst (session ds u'))"
          "service D hv t tn R s2 m2 (snd (session ds u'))" "kept s1 s2"
        using less.hyps [of bs' s1 m1 u' qs d1 "pend @ resp_encode r" pg1 ro1] d1 False by blast
      have "cur_buffer_size (read_data d1) \<noteq> 0" using d1(3) False by (simp add: holds_def)
      then have "serve_loop D P d pg ro s = (Ret (True, d2, pg2, ro2), s2)"
        by (subst serve_loop.simps) (simp add: d1(1) d2(2))
      then show ?thesis
        using d2 reqs spec kept_trans [OF d1(7) d2(9)]
        by (intro exI [of _ "q # ds"] exI [of _ rs] exI conjI) (assumption | simp)+
    qed
  qed
qed

section \<open>The read callback\<close>

text \<open>What one client is, to the specification: the requests it has yet to complete, the bytes it has
  yet to send, and the bytes it has yet to be sent.\<close>

record abs_client =
  to_come :: "string list list"
  stream :: string
  outbox :: string

definition client_holds :: "client \<Rightarrow> abs_client \<Rightarrow> bool" where
  "client_holds c x \<longleftrightarrow> reader_on c \<and> fd_open c \<and> (writer_on c \<longleftrightarrow> outbox x \<noteq> []) \<and>
     (\<exists>d. io_data c = Ptr d \<and> fresh_buffer (read_data d) \<and>
        expects (read_data d) (stream x) (to_come x) \<and> queued (write_data d) (outbox x))"

lemma get_client_run [run]: "i < length (clients s) \<Longrightarrow> get_client i s = (Ret (clients s ! i), s)"
  by (simp add: get_client_def run)

lemma upd_client_run [run]:
  "i < length (clients s) \<Longrightarrow>
   upd_client i f s = (Ret (), s\<lparr>clients := (clients s)[i := f (clients s ! i)]\<rparr>)"
  by (simp add: upd_client_def run)

lemma get_data_run:
  "i < length (clients s) \<Longrightarrow> io_data (clients s ! i) = Ptr d \<Longrightarrow> get_data i s = (Ret d, s)"
  by (simp add: get_data_def run)

lemma set_data_run:
  "i < length (clients s) \<Longrightarrow> io_data (clients s ! i) = Ptr d \<Longrightarrow>
   set_data i d' s = (Ret (), s\<lparr>clients := (clients s)[i := (clients s ! i)\<lparr>io_data := Ptr d'\<rparr>]\<rparr>)"
  by (simp add: set_data_def get_data_run run)

lemma service_clients [simp]:
  "service D hv t tn R (s\<lparr>clients := cs\<rparr>) m u = service D hv t tn R s m u"
  by (simp add: service_def status_ok_def db_ok_def mallocs_ok_def cache_ok_def table_at_def
      cache_view_def [abs_def] log_covers_def log_holds_def)

lemma kept_clients: "kept s s' \<Longrightarrow> clients s' = clients s"
  by (cases s; cases s') (simp add: kept_def)

lemma expects_with_buffer [simp]: "expects (with_buffer b n d) str reqs = expects d str reqs"
  by (simp add: expects_def at_boundary_def idle_def)

text \<open>There is room for the bytes behind \<^verbatim>\<open>cur_buffer_size\<close>.\<close>

definition fits :: "Tsocket_read_data \<Rightarrow> string \<Rightarrow> bool" where
  "fits d bs \<longleftrightarrow> bs \<noteq> [] \<and> int (length (read_buffer d)) = BUFFER_SIZE \<and> 0 \<le> cur_buffer_size d \<and>
     cur_buffer_size d + int (length bs) \<le> BUFFER_SIZE"

lemma fresh_fits: "fresh_buffer d \<Longrightarrow> packet bs \<Longrightarrow> fits d bs"
  by (simp add: fresh_buffer_def packet_def fits_def)

lemma read_socket_run:
  assumes i: "i < length (clients s)" "io_data (clients s ! i) = Ptr d" and bs: "fits (read_data d) bs"
  shows "read_socket i (Some bs) s =
    (Ret (int (length bs)), s\<lparr>clients := (clients s)[i := (clients s ! i)\<lparr>io_data :=
       Ptr (d\<lparr>read_data := (read_data d)\<lparr>read_buffer :=
         blit (read_buffer (read_data d)) (nat (cur_buffer_size (read_data d))) (cells bs)\<rparr>\<rparr>)\<rparr>]\<rparr>)"
proof -
  let ?n = "cur_buffer_size (read_data d)"
  have r: "bs \<noteq> []" "length bs \<le> nat (BUFFER_SIZE - ?n)" "length (read_buffer (read_data d)) = 200"
      "0 \<le> ?n" "?n + int (length bs) \<le> 200"
    using bs by (auto simp: fits_def)
  moreover have "?n < 200" using r(1,5) by (cases bs) auto
  moreover have "take (nat (BUFFER_SIZE - ?n)) bs = bs" using r(2) by simp
  ultimately show ?thesis
    by (simp add: read_socket_def get_data_run [OF i] Let_def set_data_run [OF i] run)
qed

text \<open>The callback up to its loop: the packet is in the read buffer.\<close>

lemma on_read_cb_loop:
  assumes i: "i < length (clients s)" and d: "io_data (clients s ! i) = Ptr d"
    and bs: "fits (read_data d) bs" and d2: "d2 = d\<lparr>read_data := receive bs (read_data d)\<rparr>"
  shows "on_read_cb D P i False (Some bs) s =
    bnd (serve_loop D P d2 (NULL, 0) (NULL, 0)) (\<lambda>(normal, d, pg, rd_out).
       sq (set_data i d)
       (if \<not> normal then ret ()
        else
          sq (if 0 < size_answer (write_data d) then upd_client i (\<lambda>c. c\<lparr>writer_on := True\<rparr>) else ret ())
          (sq (free_ptr (fst pg)) (free_ptr (fst rd_out)))))
      (s\<lparr>clients := (clients s)[i := (clients s ! i)\<lparr>io_data := Ptr d2\<rparr>]\<rparr>)"
proof -
  let ?c = "clients s ! i"
  define b where "b = blit (read_buffer (read_data d)) (nat (cur_buffer_size (read_data d))) (cells bs)"
  define d1 where "d1 = d\<lparr>read_data := (read_data d)\<lparr>read_buffer := b\<rparr>\<rparr>"
  define s1 where "s1 = s\<lparr>clients := (clients s)[i := ?c\<lparr>io_data := Ptr d1\<rparr>]\<rparr>"
  have d2': "d2 = d1\<lparr>read_data := (read_data d1)\<lparr>cur_buffer_size := int (length bs)\<rparr>\<rparr>"
    by (simp add: d2 d1_def b_def receive_def with_buffer_def)
  have rd: "read_socket i (Some bs) s = (Ret (int (length bs)), s1)"
    using read_socket_run [OF i d bs] by (simp add: s1_def d1_def b_def)
  have i1: "i < length (clients s1)" "io_data (clients s1 ! i) = Ptr d1" using i by (simp_all add: s1_def)
  have sd: "set_data i d2 s1 = (Ret (), s\<lparr>clients := (clients s)[i := ?c\<lparr>io_data := Ptr d2\<rparr>]\<rparr>)"
    using set_data_run [OF i1, of d2] i by (simp add: s1_def)
  show ?thesis
    by (simp add: on_read_cb_def bnd_Ret [of "read_socket _ _", OF rd] bnd_Ret [of "get_data _", OF get_data_run [OF i1]]
        Let_def sq_Ret [of "set_data _ _", OF sd [unfolded d2']] d2')
qed

lemma on_read_cb_spec:
  fixes s :: "('h, 'd, 'e) world_scheme"
  assumes laws: "dynahash_laws D" "hstore_laws P hv" "table_ok t"
    and s: "service D hv t tn R s m u" and ok: "\<forall>q \<in> set (to_come x). request_ok t R q"
    and i: "i < length (clients s)" and c: "client_holds (clients s ! i) x"
    and bs: "packet bs" and str: "stream x = bs @ later"
    and room: "length (outbox x @ fst (session (to_come x) u)) < 2 ^ 31"
  shows "\<exists>ds rs c' s' m'. on_read_cb D P i False (Some bs) s = (Ret (), s') \<and> to_come x = ds @ rs \<and>
    clients s' = (clients s)[i := c'] \<and>
    client_holds c' \<lparr>to_come = rs, stream = later, outbox = outbox x @ fst (session ds u)\<rparr> \<and>
    service D hv t tn R s' m' (snd (session ds u))"
proof -
  let ?c = "clients s ! i"
  obtain d where d: "io_data ?c = Ptr d" "fresh_buffer (read_data d)"
      "expects (read_data d) (bs @ later) (to_come x)" "queued (write_data d) (outbox x)"
    using c str by (auto simp: client_holds_def)
  define d2 where "d2 = d\<lparr>read_data := receive bs (read_data d)\<rparr>"
  define s2 where "s2 = s\<lparr>clients := (clients s)[i := ?c\<lparr>io_data := Ptr d2\<rparr>]\<rparr>"
  have "service D hv t tn R s2 m u" using s by (simp add: s2_def)
  moreover have "expects (read_data d2) (bs @ later) (to_come x)" using d(3) by (simp add: d2_def receive_def)
  moreover have "holds (read_data d2) bs" using receive_holds [OF d(2) bs] by (simp add: d2_def)
  moreover have "length (read_buffer (read_data d2)) = 200"
    using d(2) bs by (simp add: d2_def receive_def fresh_buffer_def packet_def)
  moreover have "queued (write_data d2) (outbox x)" using d(4) by (simp add: d2_def)
  moreover have "bs \<noteq> []" using bs by (simp add: packet_def)
  ultimately obtain ds rs d' pg ro s3 m' where L: "to_come x = ds @ rs"
      "serve_loop D P d2 (NULL, 0) (NULL, 0) s2 = (Ret (True, d', pg, ro), s3)"
      "fst pg \<noteq> Dangling" "fst ro \<noteq> Dangling" "expects (read_data d') later rs" "fresh_buffer (read_data d')"
      "queued (write_data d') (outbox x @ fst (session ds u))"
      "service D hv t tn R s3 m' (snd (session ds u))" "kept s2 s3"
    using serve_loop_spec [where s = s2 and m = m and tn = tn and d = d2 and bs = bs and later = later and
        pg = "(NULL, 0)" and ro = "(NULL, 0)", OF laws _ ok _ _ _ _ _ room] by fastforce
  have cs3: "clients s3 = clients s2" using kept_clients [OF L(9)] .
  let ?c1 = "?c\<lparr>io_data := Ptr d'\<rparr>"
  let ?c' = "if 0 < size_answer (write_data d') then ?c1\<lparr>writer_on := True\<rparr> else ?c1"
  let ?s' = "s3\<lparr>clients := (clients s)[i := ?c']\<rparr>"
  have i3: "i < length (clients s3)" "io_data (clients s3 ! i) = Ptr d2" using i by (simp_all add: cs3 s2_def)
  have sd3: "set_data i d' s3 = (Ret (), s3\<lparr>clients := (clients s)[i := ?c\<lparr>io_data := Ptr d'\<rparr>]\<rparr>)"
    using set_data_run [OF i3, of d'] i by (simp add: cs3 s2_def)
  have run1: "on_read_cb D P i False (Some bs) s = (Ret (), ?s')"
    using L(3,4) i unfolding on_read_cb_loop [OF i d(1) fresh_fits [OF d(2) bs] d2_def] s2_def [symmetric]
      bnd_Ret [of "serve_loop D P d2 (NULL, 0) (NULL, 0)", OF L(2)]
    by (simp add: sd3 run)
  have "client_holds ?c' \<lparr>to_come = rs, stream = later, outbox = outbox x @ fst (session ds u)\<rparr>"
    using c L(5-7) by (auto simp: client_holds_def queued_def)
  then show ?thesis
    using run1 L(1,8) by (intro exI [of _ ds] exI [of _ rs] exI [of _ ?c'] exI [of _ ?s'] exI [of _ m']) simp
qed

section \<open>A whole stream, packet by packet\<close>

fun read_packets :: "'h dynahash \<Rightarrow> 'd libpq \<Rightarrow> nat \<Rightarrow> string list \<Rightarrow> (('h, 'd, 'e) world_scheme, unit) prog" where
  "read_packets D P i [] = ret ()"
| "read_packets D P i (p # ps) = sq (on_read_cb D P i False (Some p)) (read_packets D P i ps)"

lemma resp_request_nonempty [simp]: "resp_request q \<noteq> []"
  by (simp add: resp_request_def header_def)

lemma expects_Nil: "expects d [] reqs \<Longrightarrow> reqs = []"
  using awaits_nonempty by (cases reqs) (auto simp: expects_def)

lemma read_packets_spec:
  assumes laws: "dynahash_laws D" "hstore_laws P hv" "table_ok t"
    and "service D hv t tn R s m u" and "\<forall>q \<in> set (to_come x). request_ok t R q"
    and "i < length (clients s)" and "client_holds (clients s ! i) x"
    and "\<forall>p \<in> set ps. packet p" and "stream x = concat ps"
    and "length (outbox x @ fst (session (to_come x) u)) < 2 ^ 31"
  shows "\<exists>c' s' m'. read_packets D P i ps s = (Ret (), s') \<and> clients s' = (clients s)[i := c'] \<and>
    client_holds c' \<lparr>to_come = [], stream = [], outbox = outbox x @ fst (session (to_come x) u)\<rparr> \<and>
    service D hv t tn R s' m' (snd (session (to_come x) u))"
  using assms(4-)
proof (induction ps arbitrary: s m u x)
  case Nil
  then obtain d where d: "io_data (clients s ! i) = Ptr d" "expects (read_data d) [] (to_come x)"
    by (auto simp: client_holds_def)
  then have none: "to_come x = []" using expects_Nil by blast
  have x: "x = \<lparr>to_come = [], stream = [], outbox = outbox x\<rparr>"
    using none Nil.prems(6) by (cases x) simp
  then have "client_holds (clients s ! i) \<lparr>to_come = [], stream = [], outbox = outbox x\<rparr>"
    using Nil.prems(4) by simp
  then show ?case
    using Nil.prems(1,3) none
    by (intro exI [of _ "clients s ! i"] exI [of _ s] exI [of _ m]) (simp add: run)
next
  case (Cons p ps)
  have p: "packet p" and str: "stream x = p @ concat ps" using Cons.prems(5,6) by auto
  obtain ds rs c1 s1 m1 where one: "on_read_cb D P i False (Some p) s = (Ret (), s1)" "to_come x = ds @ rs"
      "clients s1 = (clients s)[i := c1]"
      "client_holds c1 \<lparr>to_come = rs, stream = concat ps, outbox = outbox x @ fst (session ds u)\<rparr>"
      "service D hv t tn R s1 m1 (snd (session ds u))"
    using on_read_cb_spec [OF laws Cons.prems(1-4) p str Cons.prems(7)] by blast
  let ?x = "\<lparr>to_come = rs, stream = concat ps, outbox = outbox x @ fst (session ds u)\<rparr>"
  have ses: "session (to_come x) u = (fst (session ds u) @ fst (session rs (snd (session ds u))),
      snd (session rs (snd (session ds u))))"
    using session_append [of ds t R rs u] Cons.prems(2) one(2) by simp
  obtain c2 s2 m2 where rest: "read_packets D P i ps s1 = (Ret (), s2)" "clients s2 = (clients s1)[i := c2]"
      "client_holds c2 \<lparr>to_come = [], stream = [],
         outbox = outbox ?x @ fst (session (to_come ?x) (snd (session ds u)))\<rparr>"
      "service D hv t tn R s2 m2 (snd (session (to_come ?x) (snd (session ds u))))"
    using Cons.IH [OF one(5), of ?x] Cons.prems one(2-4) ses by auto
  have "read_packets D P i (p # ps) s = (Ret (), s2)"
    using rest(1) by (simp add: sq_Ret [of "on_read_cb D P i False (Some p)", OF one(1)])
  then show ?case
    using rest one(3) ses by (intro exI [of _ c2] exI [of _ s2] exI [of _ m2]) simp
qed

section \<open>Writing\<close>

text \<open>A \<^verbatim>\<open>write\<close> that takes everything empties the queue and stops the watcher.\<close>

lemma on_write_cb_all:
  assumes i: "i < length (clients s)" and c: "client_holds (clients s ! i) x"
  shows "\<exists>c'. on_write_cb i (int (length (outbox x))) s = (Ret (), s\<lparr>clients := (clients s)[i := c']\<rparr>) \<and>
    client_holds c' (x\<lparr>outbox := []\<rparr>)"
proof -
  obtain d where d: "io_data (clients s ! i) = Ptr d" "fresh_buffer (read_data d)"
      "expects (read_data d) (stream x) (to_come x)" "queued (write_data d) (outbox x)"
    using c by (auto simp: client_holds_def)
  have size: "size_answer (write_data d) = int (length (outbox x))" using d(4) by (simp add: queued_def)
  let ?d = "d\<lparr>write_data := (write_data d)\<lparr>size_answer := 0\<rparr>\<rparr>"
  let ?c = "(clients s ! i)\<lparr>writer_on := False, io_data := Ptr ?d\<rparr>"
  have "on_write_cb i (int (length (outbox x))) s = (Ret (), s\<lparr>clients := (clients s)[i := ?c]\<rparr>)"
    using i size
    by (simp add: on_write_cb_def bnd_Ret [of "get_data _", OF get_data_run [OF i d(1)]] Let_def
        write_socket_def set_data_def get_data_def d(1) run)
  moreover have "queued (write_data ?d) []" using d(4) by (auto simp: queued_def)
  ultimately show ?thesis
    using c d(2,3) by (intro exI [of _ ?c]) (simp add: client_holds_def)
qed

text \<open>A \<^verbatim>\<open>write\<close> that takes only \<open>n\<close> of the bytes: the rest is moved by a \<^verbatim>\<open>memcpy\<close> whose length was
  reduced twice.\<close>

lemma on_write_cb_partial:
  assumes i: "i < length (clients s)" and d: "io_data (clients s ! i) = Ptr d"
    and q: "answer (write_data d) = Ptr b" "size_answer (write_data d) = int (length b)"
    and n: "n < length b"
  shows "on_write_cb i (int n) s =
    (if length b < 2 * n then (Fault Out_Of_Bounds, s)
     else if 3 * n < length b then (Fault Overlapping_Copy, s)
     else set_data i (d\<lparr>write_data := \<lparr>answer = Ptr (take (length b - 2 * n) (drop n b) @ drop (length b - 2 * n) b),
             size_answer = int (length b - n)\<rparr>\<rparr>) s)"
proof -
  have len: "nat (int (length b) - 2 * int n) = length b - 2 * n" by simp
  show ?thesis
    using n q
    by (cases "write_data d")
       (auto simp: on_write_cb_def get_data_run [OF i d] Let_def write_socket_def memcpy_within_def run blit_def
         len of_nat_diff)
qed

section \<open>The proxy refines an abstract server\<close>

text \<open>\<open>pending_stream reqs bytes\<close>: \<open>reqs\<close> are exactly the requests that \<open>bytes\<close>, the end of their
  encoding, has yet to complete.\<close>

definition pending_stream :: "string list list \<Rightarrow> string \<Rightarrow> bool" where
  "pending_stream reqs bytes \<longleftrightarrow> (reqs = [] \<and> bytes = []) \<or>
     (\<exists>q qs us. reqs = q # qs \<and> bytes = us @ concat (map resp_request qs) \<and> us \<noteq> [] \<and>
        suffix us (resp_request q))"

lemma expects_pending: "expects d bytes reqs \<Longrightarrow> pending_stream reqs bytes"
proof -
  assume e: "expects d bytes reqs"
  show ?thesis
  proof (cases "\<exists>q qs rest. reqs = q # qs \<and> bytes = rest @ concat (map resp_request qs) \<and>
      suffix rest (resp_request q) \<and> awaits d q rest")
    case True
    then show ?thesis using awaits_nonempty unfolding pending_stream_def by blast
  next
    case False
    then have "bytes = concat (map resp_request reqs)" using e unfolding expects_def by blast
    then show ?thesis by (cases reqs) (auto simp: pending_stream_def)
  qed
qed

lemma pending_stream_bounds:
  "pending_stream rs bytes \<Longrightarrow> length bytes \<le> length (concat (map resp_request rs))"
  "pending_stream (q # rs) bytes \<Longrightarrow> length (concat (map resp_request rs)) < length bytes"
  by (auto simp: pending_stream_def dest: suffix_length_le)

lemma pending_stream_unique:
  assumes "ds @ rs = ds' @ rs'" and "pending_stream rs bytes" and "pending_stream rs' bytes"
  shows "rs = rs' \<and> ds = ds'"
proof -
  have no: False if h: "pending_stream (xs @ ys) bytes" "pending_stream ys bytes" "xs \<noteq> []" for xs ys
  proof -
    obtain q xs' where xs: "xs = q # xs'" using h(3) by (cases xs) auto
    have "length (concat (map resp_request (xs' @ ys))) < length bytes"
      using pending_stream_bounds(2) [of q "xs' @ ys"] h(1) by (simp add: xs)
    then show False using pending_stream_bounds(1) [OF h(2)] by simp
  qed
  obtain us where "rs = us @ rs' \<or> rs' = us @ rs"
    using assms(1) by (auto simp: append_eq_append_conv2)
  then have "rs = rs'" using no [of us] assms(2,3) by (cases us) auto
  then show ?thesis using assms(1) by simp
qed

text \<open>The abstract server: one map, and the clients with what is to come and to go.  \<open>a_read\<close> serves
  the requests \<open>ds\<close> that the packet completes, in order; \<open>a_accept\<close> brings a client with its requests.\<close>

type_synonym abs_server = "(string \<rightharpoonup> string) \<times> abs_client list"

inductive abs_step :: "(string list \<Rightarrow> bool) \<Rightarrow> abs_server \<Rightarrow> event \<Rightarrow> abs_server \<Rightarrow> bool" for good where
  a_read: "i < length cs \<Longrightarrow> to_come (cs ! i) = ds @ rs \<Longrightarrow> stream (cs ! i) = bs @ later \<Longrightarrow> packet bs \<Longrightarrow>
     pending_stream rs later \<Longrightarrow>
     length (outbox (cs ! i) @ fst (session (to_come (cs ! i)) u)) < 2 ^ 31 \<Longrightarrow>
     abs_step good (u, cs) (Readable i False (Some bs))
       (snd (session ds u),
        cs[i := \<lparr>to_come = rs, stream = later, outbox = outbox (cs ! i) @ fst (session ds u)\<rparr>])"
| a_write: "i < length cs \<Longrightarrow> outbox (cs ! i) \<noteq> [] \<Longrightarrow>
     abs_step good (u, cs) (Writable i (int (length (outbox (cs ! i))))) (u, cs[i := (cs ! i)\<lparr>outbox := []\<rparr>])"
| a_timer: "abs_step good (u, cs) Timeout (u, cs)"
| a_accept: "\<forall>q \<in> set reqs. good q \<Longrightarrow> accepted env \<noteq> -1 \<Longrightarrow> socket_set_nonblock (nonblock_fcntl env) \<Longrightarrow> reuseaddr_ok env \<Longrightarrow>
     nodelay_ok env \<Longrightarrow>
     abs_step good (u, cs) (Accept env)
       (u, cs @ [\<lparr>to_come = reqs, stream = concat (map resp_request reqs), outbox = []\<rparr>])"

inductive abs_run :: "(string list \<Rightarrow> bool) \<Rightarrow> abs_server \<Rightarrow> event list \<Rightarrow> abs_server \<Rightarrow> bool" for good where
  abs_nil: "abs_run good a [] a"
| abs_cons: "abs_step good a e a' \<Longrightarrow> abs_run good a' es a'' \<Longrightarrow> abs_run good a (e # es) a''"

definition sim :: "'h dynahash \<Rightarrow> ('d \<Rightarrow> string \<Rightarrow> (string \<rightharpoonup> string) option) \<Rightarrow> string \<Rightarrow> int \<Rightarrow>
    dump_status \<Rightarrow> ('h, 'd, 'e) world_scheme \<Rightarrow> abs_server \<Rightarrow> bool" where
  "sim D hv t tn R s a \<longleftrightarrow>
     (\<exists>m. service D hv t tn R s m (fst a)) \<and> length (snd a) = length (clients s) \<and>
     (\<forall>i < length (clients s). client_holds (clients s ! i) (snd a ! i)) \<and>
     (\<forall>x \<in> set (snd a). \<forall>q \<in> set (to_come x). request_ok t R q)"

lemma simD:
  assumes "sim D hv t tn R s (u, cs)"
  shows "\<exists>m. service D hv t tn R s m u" and "length cs = length (clients s)"
    and "\<And>i. i < length cs \<Longrightarrow> client_holds (clients s ! i) (cs ! i)"
    and "\<And>i. i < length cs \<Longrightarrow> \<forall>q \<in> set (to_come (cs ! i)). request_ok t R q"
  using assms by (auto simp: sim_def)

lemma sim_update:
  assumes sim: "sim D hv t tn R s (u, cs)" and "service D hv t tn R s' m' u'" and "i < length cs"
    and "clients s' = (clients s)[i := c']" and "client_holds c' x'"
    and "\<forall>q \<in> set (to_come x'). request_ok t R q"
  shows "sim D hv t tn R s' (u', cs[i := x'])"
  using assms by (auto simp: sim_def nth_list_update dest!: subsetD [OF set_update_subset_insert])

lemma sim_read:
  assumes laws: "dynahash_laws D" "hstore_laws P hv" "table_ok t"
    and sim: "sim D hv t tn R s (u, cs)" and i: "i < length cs" and split: "to_come (cs ! i) = ds @ rs"
    and str: "stream (cs ! i) = bs @ later" and bs: "packet bs" and pend: "pending_stream rs later"
    and room: "length (outbox (cs ! i) @ fst (session (to_come (cs ! i)) u)) < 2 ^ 31"
  shows "\<exists>s'. handle D P (Readable i False (Some bs)) s = (Ret (), s') \<and>
    sim D hv t tn R s' (snd (session ds u),
      cs[i := \<lparr>to_come = rs, stream = later, outbox = outbox (cs ! i) @ fst (session ds u)\<rparr>])"
proof -
  note S = simD [OF sim]
  obtain m where s: "service D hv t tn R s m u" using S(1) by blast
  have c: "i < length (clients s)" using i S(2) by simp
  obtain ds' rs' c' s' m' where r: "on_read_cb D P i False (Some bs) s = (Ret (), s')"
      "to_come (cs ! i) = ds' @ rs'" "clients s' = (clients s)[i := c']"
      "client_holds c' \<lparr>to_come = rs', stream = later, outbox = outbox (cs ! i) @ fst (session ds' u)\<rparr>"
      "service D hv t tn R s' m' (snd (session ds' u))"
    using on_read_cb_spec [OF laws s S(4) [OF i] c S(3) [OF i] bs str room] by blast
  have "pending_stream rs' later" using r(4) expects_pending by (auto simp: client_holds_def)
  then have same: "rs' = rs" "ds' = ds"
    using pending_stream_unique [of ds' rs' ds rs later] pend r(2) split by auto
  have "sim D hv t tn R s' (snd (session ds' u),
      cs[i := \<lparr>to_come = rs', stream = later, outbox = outbox (cs ! i) @ fst (session ds' u)\<rparr>])"
    using S(4) [OF i] r(2) by (intro sim_update [OF sim r(5) i r(3,4)]) simp
  then show ?thesis using r(1) same by (auto simp: handle_def)
qed

lemma sim_write:
  assumes sim: "sim D hv t tn R s (u, cs)" and i: "i < length cs"
  shows "\<exists>s'. handle D P (Writable i (int (length (outbox (cs ! i))))) s = (Ret (), s') \<and>
    sim D hv t tn R s' (u, cs[i := (cs ! i)\<lparr>outbox := []\<rparr>])"
proof -
  note S = simD [OF sim]
  obtain m where s: "service D hv t tn R s m u" using S(1) by blast
  have c: "i < length (clients s)" using i S(2) by simp
  obtain c' where w: "on_write_cb i (int (length (outbox (cs ! i)))) s = (Ret (), s\<lparr>clients := (clients s)[i := c']\<rparr>)"
      "client_holds c' ((cs ! i)\<lparr>outbox := []\<rparr>)"
    using on_write_cb_all [OF c S(3) [OF i]] by auto
  have "service D hv t tn R (s\<lparr>clients := (clients s)[i := c']\<rparr>) m u" using s by simp
  from sim_update [OF sim this i _ w(2)] S(4) [OF i]
  have "sim D hv t tn R (s\<lparr>clients := (clients s)[i := c']\<rparr>) (u, cs[i := (cs ! i)\<lparr>outbox := []\<rparr>])" by simp
  then show ?thesis using w(1) by (auto simp: handle_def)
qed

lemma sim_timer:
  assumes "hstore_laws P hv" and "table_ok t" and sim: "sim D hv t tn DEFFER_DUMP s (u, cs)"
  shows "\<exists>s'. handle D P Timeout s = (Ret (), s') \<and> sim D hv t tn DEFFER_DUMP s' (u, cs)"
proof -
  obtain m where s: "service D hv t tn DEFFER_DUMP s m u" using simD(1) [OF sim] by blast
  obtain s' where s': "sync_with_db P s = (Ret 0, s')" "kept s s'" "service D hv t tn DEFFER_DUMP s' u u"
    using deferred_flush [OF assms(1,2) s] by blast
  have "sim D hv t tn DEFFER_DUMP s' (u, cs)"
    using sim s'(3) kept_clients [OF s'(2)] by (auto simp: sim_def)
  then show ?thesis using s'(1) by (simp add: handle_def on_timer_timeout_cb_def run)
qed

lemma new_client_holds:
  "client_holds \<lparr>io_fd = fd, io_data = Ptr new_data, reader_on = True, writer_on = False, fd_open = True\<rparr>
     \<lparr>to_come = reqs, stream = concat (map resp_request reqs), outbox = []\<rparr>"
  by (simp add: client_holds_def new_data_def fresh_buffer_def expects_def at_boundary_def idle_def queued_def)

lemma sim_accept:
  assumes sim: "sim D hv t tn R s (u, cs)" and ok: "\<forall>q \<in> set reqs. request_ok t R q"
    and env: "accepted env \<noteq> -1" "socket_set_nonblock (nonblock_fcntl env)" "reuseaddr_ok env" "nodelay_ok env"
  shows "\<exists>s'. handle D P (Accept env) s = (Ret (), s') \<and>
    sim D hv t tn R s' (u, cs @ [\<lparr>to_come = reqs, stream = concat (map resp_request reqs), outbox = []\<rparr>])"
proof -
  obtain m where s: "service D hv t tn R s m u" using simD(1) [OF sim] by blast
  let ?c = "\<lparr>io_fd = accepted env, io_data = Ptr new_data, reader_on = True, writer_on = False, fd_open = True\<rparr>"
  let ?m3 = "\<lambda>s. s\<lparr>mallocs := tl (tl (tl (mallocs s)))\<rparr>"
  let ?s = "s\<lparr>mallocs := tl (tl (tl (mallocs s))), clients := clients s @ [?c]\<rparr>"
  have "no_refusal (mallocs s)" using service_malloc(2) [OF s] by (simp add: mallocs_ok_def)
  then have run: "on_accept_cb env s = (Ret (), ?s)"
    using env by (simp add: on_accept_cb_def get_socket_def run)
  have "db_ok hv t (?m3 s) m" using serviceD(3) [OF s] by (simp add: db_ok_def mallocs_ok_def)
  then have "service D hv t tn R (?m3 s) m u"
    by (intro service_frame [OF s]) (simp_all add: kept_def)
  then have "service D hv t tn R ?s m u" by simp
  then have "sim D hv t tn R ?s (u, cs @ [\<lparr>to_come = reqs, stream = concat (map resp_request reqs), outbox = []\<rparr>])"
    using sim ok new_client_holds by (auto simp: sim_def nth_append less_Suc_eq)
  then show ?thesis using run by (auto simp: handle_def)
qed

text \<open>Every step of the abstract server is a step of the proxy: the watcher is on, the callback
  returns, and the two states still correspond.\<close>

lemma handle_enabled:
  assumes sim: "sim D hv t tn R s a" and a: "abs_step good a e a'" and "e = Timeout \<Longrightarrow> R = DEFFER_DUMP"
  shows "enabled s e"
  using a
proof cases
  case (a_read i cs ds rs bs later u)
  then show ?thesis
    using sim simD(2,3) [of D hv t tn R s u cs] by (auto simp: enabled_def client_holds_def)
next
  case (a_write i cs u)
  then have "client_holds (clients s ! i) (cs ! i)" "i < length (clients s)"
    using sim simD(2,3) [of D hv t tn R s u cs] by auto
  then show ?thesis using a_write by (auto simp: enabled_def client_holds_def queued_def)
next
  case (a_timer u cs)
  then show ?thesis using assms(3) sim by (auto simp: enabled_def sim_def service_def)
next
  case (a_accept reqs env u cs)
  then show ?thesis by (simp add: enabled_def)
qed

lemma sim_step:
  assumes laws: "dynahash_laws D" "hstore_laws P hv" "table_ok t"
    and sim: "sim D hv t tn R s a" and a: "abs_step (request_ok t R) a e a'"
    and timer: "e = Timeout \<Longrightarrow> R = DEFFER_DUMP"
  shows "\<exists>s'. ev_step D P s e s' \<and> sim D hv t tn R s' a'"
proof -
  have "\<exists>s'. handle D P e s = (Ret (), s') \<and> sim D hv t tn R s' a'"
    using a
  proof cases
    case (a_read i cs ds rs bs later u)
    then show ?thesis using sim_read [OF laws] sim by blast
  next
    case (a_write i cs u)
    then show ?thesis using sim_write sim by blast
  next
    case (a_timer u cs)
    then show ?thesis using sim_timer [OF laws(2,3)] sim timer by blast
  next
    case (a_accept reqs env u cs)
    then show ?thesis using sim_accept sim by blast
  qed
  then show ?thesis using handle_enabled [OF sim a timer] by (auto simp: ev_step_iff)
qed

lemma sim_run:
  assumes laws: "dynahash_laws D" "hstore_laws P hv" "table_ok t"
    and "abs_run (request_ok t R) a es a'" and "sim D hv t tn R s a" and "Timeout \<in> set es \<longrightarrow> R = DEFFER_DUMP"
  shows "\<exists>s'. ev_run D P s es s' \<and> sim D hv t tn R s' a'"
  using assms(4-)
proof (induction arbitrary: s rule: abs_run.induct)
  case (abs_nil a)
  then show ?case by (blast intro: ev_run.ev_nil)
next
  case (abs_cons a e a' es a'')
  obtain s1 where s1: "ev_step D P s e s1" "sim D hv t tn R s1 a'"
    using sim_step [OF laws abs_cons.prems(1) abs_cons.hyps(1)] abs_cons.prems(2) by auto
  then show ?case using abs_cons.IH [OF s1(2)] abs_cons.prems(2) by (auto intro: ev_run.ev_cons)
qed

text \<open>The proxy is deterministic: given the events, there is one run.\<close>

lemma ev_step_deterministic: "ev_step D P s e s1 \<Longrightarrow> ev_step D P s e s2 \<Longrightarrow> s1 = s2"
  by (auto simp: ev_step_iff)

lemma ev_run_deterministic: "ev_run D P s es s1 \<Longrightarrow> ev_run D P s es s2 \<Longrightarrow> s1 = s2"
proof (induction arbitrary: s2 rule: ev_run.induct)
  case (ev_cons s e s' es s'')
  then show ?case using ev_step_deterministic by blast
qed auto

section \<open>A disconnect\<close>

text \<open>The end of the stream, or an error of \<^verbatim>\<open>read\<close>: \<^verbatim>\<open>read_data\<close> closes the connection and frees its
  data, and \<^verbatim>\<open>on_read_cb\<close> then writes into them.\<close>

lemma free_argv_boundary:
  assumes "at_boundary d"
  shows "free_argv d s = (Ret (), s) \<or> (idle d \<and> argv d = Dangling)"
proof (cases "idle d")
  case True
  then show ?thesis by (cases "argv d") (auto simp: idle_def free_argv_def run)
next
  case False
  then obtain arr where "argv d = Ptr arr" "argc d = int (length arr)" "\<forall>p \<in> set arr. \<exists>b. p = Some (Ptr b)"
    using assms by (auto simp: at_boundary_def)
  then show ?thesis by (simp add: free_argv_def free_args_owned run)
qed

lemma disconnect_faults:
  fixes s :: "('h, 'd, 'e) world_scheme"
  assumes i: "i < length (clients s)" "io_data (clients s ! i) = Ptr d" and d: "at_boundary (read_data d)"
    and v: "argv (read_data d) \<noteq> Dangling" "answer (write_data d) \<noteq> Dangling" and e: "input = None \<or> input = Some []"
  shows "\<exists>s'. on_read_cb D P i False input s = (Fault Use_After_Free, s') \<and> \<not> fd_open (clients s' ! i)"
proof -
  have "free_argv (read_data d) s' = (Ret (), s')" for s' :: "('h, 'd, 'e) world_scheme"
    using free_argv_boundary [OF d, of s'] v(1) by auto
  then have close: "close_connection i s = (Ret (), s\<lparr>clients := (clients s)[i :=
      (clients s ! i)\<lparr>writer_on := False, reader_on := False, fd_open := False, io_data := Dangling\<rparr>]\<rparr>)"
    using i v(2) by (simp add: close_connection_def get_data_run run)
  have "on_read_cb D P i False input s = (Fault Use_After_Free, s\<lparr>clients := (clients s)[i :=
      (clients s ! i)\<lparr>writer_on := False, reader_on := False, fd_open := False, io_data := Dangling\<rparr>]\<rparr>)"
    using e i by (auto simp: on_read_cb_def read_socket_def get_data_def close run Let_def)
  then show ?thesis using i(1) by auto
qed

end
