(* ===== verification/Failure_Paths.thy ===== *)
theory Failure_Paths
  imports Serving
begin

text \<open>
  What happens off the straight path: refused allocations, a lost connection to the database, a
  write that stays in the cache, a command without an answer, and text that is spliced into a statement.
\<close>

section \<open>No memory, no connection\<close>

text \<open>\<^verbatim>\<open>ereport(ERROR)\<close> does not come back, and the allocator's next answer is a refusal.\<close>

definition out_of_memory :: "'e c_env_scheme \<Rightarrow> bool" where
  "out_of_memory s \<longleftrightarrow> \<not> error_returns s \<and> \<not> malloc_grants s"

lemma value_requests_out_of_memory:
  assumes "out_of_memory s" and "connected s"
  shows "get_value P t k out s = (Exit ''can't malloc'', s\<lparr>mallocs := tl (mallocs s)\<rparr>)"
    and "set_value P t k v s = (Exit ''can't malloc'', s\<lparr>mallocs := tl (mallocs s)\<rparr>)"
    and "del_value P t k s = (Exit ''can't malloc'', s\<lparr>mallocs := tl (mallocs s)\<rparr>)"
  using assms by (simp_all add: out_of_memory_def get_value_def set_value_def del_value_def Let_def run)

lemma value_requests_not_connected:
  assumes "\<not> connected s" and "error_returns s"
  shows "get_value P t k out s = (Ret (ERR_REQ, out), s)"
    and "set_value P t k v s = (Ret ERR_REQ, s)"
    and "del_value P t k s = (Ret ERR_REQ, s)"
    and "do_transaction P s = (Ret ERR_REQ, s)"
  using assms by (simp_all add: get_value_def set_value_def del_value_def do_transaction_def Let_def run)

lemma init_transaction_refused:
  assumes "\<not> malloc_grants s"
  shows "fst (init_transaction n s) = Fault Null_Deref"
proof -
  have "\<not> malloc_grants (s\<lparr>full_transaction_size := m\<rparr>)" for m using assms by (simp add: malloc_grants_def)
  then show ?thesis by (simp add: init_transaction_def run)
qed

lemma process_error_refused:
  "\<not> malloc_grants s \<Longrightarrow> process_error e s = (Fault Null_Deref, s\<lparr>mallocs := tl (mallocs s)\<rparr>)"
  by (simp add: process_error_def Let_def run)

section \<open>Only the cache\<close>

text \<open>In the regime \<open>ONLY_CACHE\<close> a write of a key and value that fit never reaches the database.\<close>

lemma only_cache_set:
  assumes D: "dynahash_laws D" and s: "service D hv t tn ONLY_CACHE s m u"
    and k: "cache_key k" and v: "cache_value v"
  shows "\<exists>hs. req_set D P k v s = (Ret OK, s\<lparr>hashes := hs\<rparr>) \<and>
    cache_view D tn (s\<lparr>hashes := hs\<rparr>) k = Some (Present v)"
proof -
  note S = serviceD [OF s]
  obtain hs where hs: "set_hash_table D tn (Ptr k) (Ptr v) NUL s = (Ret 0, s\<lparr>hashes := hs\<rparr>)"
      "cache_view D tn (s\<lparr>hashes := hs\<rparr>) k = Some (Present v)"
    using set_hash_table_spec [OF D S(6) k, of "Ptr v" NUL v] v k by auto
  have "strlen k + 1 < KEY_SIZE" "strlen v + 1 < VALUE_SIZE"
    using k v by (auto simp: cache_key_def cache_value_def strlen_def)
  then have "req_set D P k v s = (Ret OK, s\<lparr>hashes := hs\<rparr>)"
    using S(2) hs(1) by (simp add: req_set_def run status_getters [OF S(1)])
  then show ?thesis using hs(2) by blast
qed

section \<open>Text is spliced into the statement unquoted\<close>

text \<open>A value that closes the literal and goes on with a statement of its own.\<close>

definition breakout :: "string \<Rightarrow> string \<Rightarrow> string \<Rightarrow> string \<Rightarrow> string" where
  "breakout v t k' v' = v @ [QT] @ '';UPDATE '' @ t @ '' SET h['' @ [QT] @ k' @ [QT] @ '']='' @ [QT] @ v'"

lemma breakout_sql: "sql_update t k (breakout v t' k' v') = sql_update t k v @ sql_update t' k' v'"
  by (simp add: sql_update_def breakout_def)

lemma set_value_breakout:
  assumes "pq_exec P (server s) (sql_update t k v @ sql_update t' k' v') =
      (\<lparr>res_status = PGRES_COMMAND_OK, res_rows = rows\<rparr>, d)"
    and "mallocs_ok s" and "connected s" and "conn s = Ptr ()"
    and len: "strlen t + strlen k + strlen (breakout v t' k' v') < 2 ^ 30"
  shows "\<exists>s'. set_value P t k (breakout v t' k' v') s = (Ret OK, s') \<and> server s' = d"
proof -
  let ?w = "breakout v t' k' v'"
  have n: "0 \<le> strlen t + strlen k + strlen ?w" by (simp add: strlen_def)
  have size: "to_int (UPDATE_REQV_SIZE + strlen t + strlen k + strlen ?w) = UPDATE_REQV_SIZE + strlen t + strlen k + strlen ?w"
    using n len by (intro to_int_id) (simp add: int_range_def)
  have "strlen (sql_update t k ?w) = UPDATE_REQV_SIZE + strlen t + strlen k + strlen ?w" by (rule sql_sizes)
  then have snp: "snprintf_ret (sql_update t k ?w) = UPDATE_REQV_SIZE + strlen t + strlen k + strlen ?w"
    using len by simp
  show ?thesis
    using assms(1-4) n len
    by (simp add: set_value_def Let_def size snp [unfolded breakout_sql] run PQexec_def PQresultStatus_def breakout_sql)
qed

section \<open>COMMAND has no answer\<close>

lemma process_command_unanswered:
  assumes "map big_char cmd = ''COMMAND''" and "NUL \<notin> set cmd"
  shows "process_redis_to_postgres D P (int (length as) + 1) (arg_array (cmd # as)) out s =
    (Ret (arg_array (map big_char cmd # as), 0, out), s)"
proof -
  let ?argv = "arg_array (''COMMAND'' # as)"
  have name: "cstr_at ?argv 0 s = (Ret ''COMMAND'', s)"
    using cstr_at_array [of 0 "''COMMAND'' # as"] by simp
  have argv: "(arg_array (cmd # as))[0 := Some (Ptr (to_big_case (cells cmd @ [Some NUL])))] = ?argv"
    using arg_array_upper(2) [OF assms(2)] assms(1) by simp
  show ?thesis
    by (simp add: process_redis_to_postgres_def bnd_Ret [of "arg_at _ _", OF arg_array_upper(1) [OF assms(2)]]
        bnd_Ret [of "cstr_at _ _", OF name] Let_def argv assms(1) ret_run)
qed

text \<open>The first thing \<^verbatim>\<open>redis-cli\<close> sends.  With no reply before it in this packet, \<^verbatim>\<open>pg_answer\<close> is
  still NULL when \<^verbatim>\<open>define_type_req\<close> reads its first byte.\<close>

lemma command_request_faults:
  fixes s :: "('h, 'd, 'e) world_scheme"
  assumes cmd: "map big_char cmd = ''COMMAND''" "NUL \<notin> set cmd" and good: "good_args (cmd # as)"
    and i: "i < length (clients s)" and d: "io_data (clients s ! i) = Ptr d" "fresh_buffer (read_data d)"
      "at_boundary (read_data d)"
    and bs: "packet (resp_request (cmd # as) @ bs)" and ok: "mallocs_ok s"
  shows "fst (on_read_cb D P i False (Some (resp_request (cmd # as) @ bs)) s) = Fault Null_Deref"
proof -
  let ?bs = "resp_request (cmd # as) @ bs"
  define d2 where "d2 = d\<lparr>read_data := receive ?bs (read_data d)\<rparr>"
  define s2 where "s2 = s\<lparr>clients := (clients s)[i := (clients s ! i)\<lparr>io_data := Ptr d2\<rparr>]\<rparr>"
  have h: "holds (read_data d2) ?bs" "length (read_buffer (read_data d2)) = 200"
    using receive_holds [OF d(2) bs] bs d(2) by (simp_all add: d2_def receive_def fresh_buffer_def packet_def)
  have bd: "at_boundary (read_data d2)" using d(3) by (simp add: d2_def receive_def at_boundary_def idle_def)
  obtain d0 where d0: "reset_request (read_data d2) s2 = (Ret d0, s2)" "idle d0"
      "read_buffer d0 = read_buffer (read_data d2)" "cur_buffer_size d0 = cur_buffer_size (read_data d2)"
    using reset_boundary [OF bd, of s2] by (elim exE conjE) (rule that)
  have ok2: "mallocs_ok s2" using ok by (simp add: s2_def mallocs_ok_def)
  obtain d1 j where d1: "parse_cli_mes d0 s2 = (Ret d1, s2\<lparr>mallocs := drop j (mallocs s2)\<rparr>)"
      "exit_status d1 = ALL_READ" "argc d1 = int (length as) + 1" "argv d1 = Ptr (arg_array (cmd # as))"
    using parse_complete [OF holds_reset [OF h(1) d0(3,4)] idle_awaits [OF d0(2) good] ok2]
    by (elim exE conjE) (rule that, simp_all add: arg_array_def)
  have "serve_one D P d2 (NULL, 0) (NULL, 0) s2 = (Fault Null_Deref, s2\<lparr>mallocs := drop j (mallocs s2)\<rparr>)"
    using d1(2-4)
    by (simp add: serve_one_def d0(1) d1(1) Let_def process_command_unanswered [OF cmd] run define_type_req_def)
  then have "serve_loop D P d2 (NULL, 0) (NULL, 0) s2 = (Fault Null_Deref, s2\<lparr>mallocs := drop j (mallocs s2)\<rparr>)"
    by (simp add: serve_loop.simps)
  then show ?thesis
    unfolding on_read_cb_loop [OF i d(1) fresh_fits [OF d(2) bs] d2_def] s2_def [symmetric] by (simp add: bnd_run)
qed

end
