(* ===== verification/Parser_Safety.thy ===== *)
theory Parser_Safety
  imports Failure_Paths
begin

text \<open>
  What the parser of \<^verbatim>\<open>work_with_socket.c\<close> does on bytes that need not be a request: the invariant of a
  connection's parsing state, the bytes that are outside of what the parser copes with (a number that is
  too large for \<^verbatim>\<open>int\<close>, a count or a length below one), and what such a length does to the worker.
\<close>

section \<open>The invariant of the parsing state\<close>

text \<open>The array of arguments is allocated, and its first \<^verbatim>\<open>cur_count_argv\<close> entries are assigned.\<close>

definition args_open :: "Tsocket_read_data \<Rightarrow> bool" where
  "args_open d \<longleftrightarrow> (\<exists>arr. argv d = Ptr arr \<and> argc d = int (length arr) \<and> 0 \<le> cur_count_argv d \<and>
     cur_count_argv d < argc d \<and> (\<forall>j < nat (cur_count_argv d). \<exists>b. arr ! j = Some (Ptr b)))"

definition args_done :: "Tsocket_read_data \<Rightarrow> bool" where
  "args_done d \<longleftrightarrow> (\<exists>arr. argv d = Ptr arr \<and> argc d = int (length arr) \<and> arr \<noteq> [] \<and>
     (\<forall>j < length arr. \<exists>b. arr ! j = Some (Ptr b)))"

definition string_open :: "Tsocket_read_data \<Rightarrow> bool" where
  "string_open d \<longleftrightarrow> (\<exists>b. parsing_str (parsing d) = Ptr b \<and> int (length b) = size_str (parsing d) + 1 \<and>
     0 \<le> cur_size_str (parsing d) \<and> cur_size_str (parsing d) < size_str (parsing d) \<and>
     size_str (parsing d) < 2 ^ 31)"

definition parsing_ok :: "Tsocket_read_data \<Rightarrow> bool" where
  "parsing_ok d \<longleftrightarrow> (case read_status d of
     ARRAY_WAIT \<Rightarrow> argc d = -1
   | NUM_OR_MINUS_WAIT \<Rightarrow> argc d = -1 \<or> args_open d
   | NUM_WAIT \<Rightarrow> argc d = -1 \<or> args_open d
   | START_STRING_WAIT \<Rightarrow> args_open d
   | STRING_WAIT \<Rightarrow> args_open d \<and> string_open d
   | STR_SYM_WAIT \<Rightarrow> args_open d \<and> string_open d
   | END \<Rightarrow> args_done d)"

lemma parsing_parts [simp]:
  "args_open (d\<lparr>parsing := p\<rparr>) = args_open d" "args_open (d\<lparr>read_status := r\<rparr>) = args_open d"
  "args_open (d\<lparr>exit_status := e\<rparr>) = args_open d" "args_done (d\<lparr>read_status := r\<rparr>) = args_done d"
  "args_done (d\<lparr>parsing := p\<rparr>) = args_done d"
  "string_open (d\<lparr>read_status := r\<rparr>) = string_open d" "string_open (d\<lparr>argv := a\<rparr>) = string_open d"
  by (simp_all add: args_open_def args_done_def string_open_def)

lemma parsing_buffer [simp]:
  "parsing_ok (d\<lparr>cur_buffer_size := n\<rparr>) = parsing_ok d" "parsing_ok (d\<lparr>read_buffer := b\<rparr>) = parsing_ok d"
  "parsing_ok (d\<lparr>exit_status := e\<rparr>) = parsing_ok d" "args_done (d\<lparr>cur_buffer_size := n\<rparr>) = args_done d"
  "args_done (d\<lparr>read_buffer := b\<rparr>) = args_done d" "args_done (d\<lparr>exit_status := e\<rparr>) = args_done d"
  by (simp_all add: parsing_ok_def args_open_def args_done_def string_open_def split: Eread_status.split)

text \<open>A count or a length as it stands when the carriage return behind it is read.\<close>

definition number_read :: "Tsocket_read_data \<Rightarrow> int" where
  "number_read d = (if is_negative (parsing d) then - parsing_num (parsing d) else parsing_num (parsing d))"

definition sane :: "char \<Rightarrow> Tsocket_read_data \<Rightarrow> bool" where
  "sane c d \<longleftrightarrow>
     (is_digit c \<and> (read_status d = NUM_OR_MINUS_WAIT \<or> read_status d = NUM_WAIT) \<longrightarrow>
        int_range (parsing_num (parsing d) * 10 + digit_val c)) \<and>
     (c = CR \<and> read_status d = NUM_WAIT \<longrightarrow> 0 < number_read d \<and> number_read d < 2 ^ 31 - 1)"

lemma end_number_safe:
  assumes ok: "argc d = -1 \<or> args_open d" and st: "read_status d = NUM_WAIT"
    and n: "0 < number_read d" "number_read d < 2 ^ 31 - 1" and m: "mallocs_ok s"
  shows "\<exists>d'. end_number d s = (Ret (Go, d'), s\<lparr>mallocs := tl (mallocs s)\<rparr>) \<and> parsing_ok d'"
proof -
  have r: "int_range (parsing_num (parsing d) * -1)" if "is_negative (parsing d)"
    using n that by (simp add: number_read_def int_range_def)
  have r1: "int_range (number_read d + 1)" using n by (simp add: int_range_def)
  have num: "(if is_negative (parsing d) then chk_int (parsing_num (parsing d) * -1)
      else ret (parsing_num (parsing d))) s = (Ret (number_read d), s)"
    using r by (auto simp: number_read_def run)
  show ?thesis
  proof (cases "argc d = -1")
    case True
    let ?d = "set_parsing (\<lambda>p. p\<lparr>parsing_num := 0\<rparr>) (d\<lparr>argc := number_read d, cur_count_argv := 0,
       read_status := START_STRING_WAIT, argv := Ptr (replicate (nat (number_read d)) None)\<rparr>)"
    have "end_number d s = (Ret (Go, ?d), s\<lparr>mallocs := tl (mallocs s)\<rparr>)"
      unfolding end_number_def by (rule trans, rule bnd_Ret, rule num) (use True n m in \<open>simp add: Let_def run\<close>)
    moreover have "parsing_ok ?d" using n by (simp add: parsing_ok_def args_open_def)
    ultimately show ?thesis by blast
  next
    case False
    let ?d = "set_parsing (\<lambda>p. p\<lparr>parsing_num := 0, size_str := number_read d, cur_size_str := 0,
       parsing_str := Ptr (replicate (nat (number_read d + 1)) None)\<rparr>) (d\<lparr>read_status := STRING_WAIT\<rparr>)"
    have "end_number d s = (Ret (Go, ?d), s\<lparr>mallocs := tl (mallocs s)\<rparr>)"
      unfolding end_number_def by (rule trans, rule bnd_Ret, rule num) (use False n m r1 in \<open>simp add: Let_def run\<close>)
    moreover have "parsing_ok ?d" using False ok n by (simp add: parsing_ok_def string_open_def)
    ultimately show ?thesis by blast
  qed
qed

lemma string_sym_safe:
  assumes ok: "args_open d" "string_open d" and st: "read_status d = STR_SYM_WAIT" and m: "mallocs_ok s"
  shows "\<exists>d' ms. string_sym c d s = (Ret (Go, d'), s\<lparr>mallocs := ms\<rparr>) \<and> no_refusal ms \<and> parsing_ok d'"
proof -
  obtain b where b: "parsing_str (parsing d) = Ptr b" "int (length b) = size_str (parsing d) + 1"
      "0 \<le> cur_size_str (parsing d)" "cur_size_str (parsing d) < size_str (parsing d)" "size_str (parsing d) < 2 ^ 31"
    using ok(2) by (auto simp: string_open_def)
  obtain arr where arr: "argv d = Ptr arr" "argc d = int (length arr)" "0 \<le> cur_count_argv d"
      "cur_count_argv d < int (length arr)" "\<forall>j < nat (cur_count_argv d). \<exists>b. arr ! j = Some (Ptr b)"
    using ok(1) by (auto simp: args_open_def)
  show ?thesis
  proof (cases "cur_size_str (parsing d) + 1 = size_str (parsing d)")
    case False
    then show ?thesis
      using b arr st m
      by (intro exI [of _ "set_parsing (\<lambda>p. p\<lparr>parsing_str := Ptr (blit b (nat (cur_size_str p)) [Some c]),
             cur_size_str := cur_size_str p + 1\<rparr>) d"] exI [of _ "mallocs s"])
         (simp add: string_sym_def run Let_def parsing_ok_def args_open_def string_open_def mallocs_ok_def)
  next
    case True
    have step: "\<exists>b. (arr[nat (cur_count_argv d) := Some (Ptr a)]) ! j = Some (Ptr b)"
      if "j < Suc (nat (cur_count_argv d))" for j a
      using that arr by (cases "j = nat (cur_count_argv d)") auto
    have last: "cur_count_argv d + 1 = int (length arr) \<Longrightarrow> Suc (nat (cur_count_argv d)) = length arr"
      using arr(3) by linarith
    show ?thesis
      using b arr True m last
      by (simp add: string_sym_def run Let_def store_arg_def)
         (auto simp: parsing_ok_def args_open_def args_done_def mallocs_ok_def nat_add_distrib intro!: step [simplified])
  qed
qed

lemma parse_sym_safe:
  assumes ok: "parsing_ok d" "sane c d" and m: "mallocs_ok s"
  shows "\<exists>v d' ms. parse_sym c d s = (Ret (v, d'), s\<lparr>mallocs := ms\<rparr>) \<and> no_refusal ms \<and> parsing_ok d' \<and>
    v \<noteq> Stop_Err \<and> (v = Stop_All \<longrightarrow> args_done d')"
proof -
  have keep: "\<exists>ms. s = s\<lparr>mallocs := ms\<rparr> \<and> no_refusal ms"
    using m by (intro exI [of _ "mallocs s"]) (simp add: mallocs_ok_def)
  have go: ?thesis if "parse_sym c d s = (Ret (Go, d'), s)" "parsing_ok d'" for d'
    using that keep by (metis verdict.distinct(1,3))
  have digit: ?thesis if c: "is_digit c" and st: "read_status d = NUM_OR_MINUS_WAIT \<or> read_status d = NUM_WAIT"
  proof -
    have r: "int_range (parsing_num (parsing d) * 10 + digit_val c)" using ok(2) that by (auto simp: sane_def)
    obtain d' where "parse_sym c d s = (Ret (Go, d'), s)" "read_status d' = NUM_WAIT" "argc d' = argc d"
        "args_open d' = args_open d"
      using c st r by (auto simp: parse_sym_def push_digit_def run)
    moreover have "argc d = -1 \<or> args_open d" using ok(1) st by (auto simp: parsing_ok_def)
    ultimately show ?thesis by (intro go [of d']) (simp_all add: parsing_ok_def)
  qed
  show ?thesis
  proof (cases "read_status d")
    case ARRAY_WAIT
    then show ?thesis
      using ok(1) by (cases "c = CHR ''*''") (auto simp: parse_sym_def run parsing_ok_def keep)
  next
    case NUM_OR_MINUS_WAIT
    then show ?thesis
      using ok(1) digit by (cases "is_digit c"; cases "c = CHR ''-''") (auto simp: parse_sym_def run parsing_ok_def keep)
  next
    case NUM_WAIT
    consider "is_digit c" | "\<not> is_digit c" "c = CR" | "\<not> is_digit c" "c \<noteq> CR" by blast
    then show ?thesis
    proof cases
      case 1
      then show ?thesis using digit NUM_WAIT by blast
    next
      case 2
      then have "parse_sym c d s = end_number d s" using NUM_WAIT by (simp add: parse_sym_def)
      moreover have "0 < number_read d" "number_read d < 2 ^ 31 - 1" using ok(2) 2 NUM_WAIT by (auto simp: sane_def)
      moreover have "argc d = -1 \<or> args_open d" using ok(1) NUM_WAIT by (simp add: parsing_ok_def)
      ultimately show ?thesis using end_number_safe [OF _ NUM_WAIT _ _ m] m by (fastforce simp: mallocs_ok_def)
    next
      case 3
      show ?thesis by (rule go [of d]) (use 3 NUM_WAIT ok(1) in \<open>simp_all add: parse_sym_def run\<close>)
    qed
  next
    case STRING_WAIT
    then show ?thesis
      using ok(1) by (cases "c = LF") (auto simp: parse_sym_def run parsing_ok_def keep)
  next
    case START_STRING_WAIT
    then show ?thesis
      using ok(1) by (cases "c = LF"; cases "c = CHR ''$''") (auto simp: parse_sym_def run parsing_ok_def keep)
  next
    case STR_SYM_WAIT
    then have "parse_sym c d s = string_sym c d s" by (simp add: parse_sym_def)
    moreover have "args_open d" "string_open d" using ok(1) STR_SYM_WAIT by (simp_all add: parsing_ok_def)
    ultimately show ?thesis using string_sym_safe [OF _ _ STR_SYM_WAIT m, of c] by fastforce
  next
    case END
    then show ?thesis
      using ok(1) by (cases "c = LF") (auto simp: parse_sym_def run parsing_ok_def keep)
  qed
qed

section \<open>Whole buffers\<close>

fun sane_bytes :: "string \<Rightarrow> Tsocket_read_data \<Rightarrow> 'e c_env_scheme \<Rightarrow> bool" where
  "sane_bytes [] d s = True"
| "sane_bytes (c # cs) d s = (sane c d \<and>
     (case parse_sym c d s of (Ret (Go, d'), s') \<Rightarrow> sane_bytes cs d' s' | _ \<Rightarrow> True))"

lemma feed_safe:
  "parsing_ok d \<Longrightarrow> mallocs_ok s \<Longrightarrow> sane_bytes cs d s \<Longrightarrow>
   \<exists>v d' rest s'. feed cs d s = (Ret (v, d', rest), s') \<and> parsing_ok d' \<and> mallocs_ok s' \<and>
     v \<noteq> Stop_Err \<and> (v = Stop_All \<longrightarrow> args_done d')"
proof (induction cs arbitrary: d s)
  case Nil
  then show ?case by (simp add: run)
next
  case (Cons c cs)
  have sane: "sane c d" using Cons.prems(3) by simp
  obtain v d1 ms where v: "parse_sym c d s = (Ret (v, d1), s\<lparr>mallocs := ms\<rparr>)" "no_refusal ms" "parsing_ok d1"
      "v \<noteq> Stop_Err" "v = Stop_All \<longrightarrow> args_done d1"
    using parse_sym_safe [OF Cons.prems(1) sane Cons.prems(2)] by (elim exE conjE) (rule that)
  show ?case
  proof (cases "v = Go")
    case True
    have "\<exists>v d' rest s'. feed cs d1 (s\<lparr>mallocs := ms\<rparr>) = (Ret (v, d', rest), s') \<and> parsing_ok d' \<and> mallocs_ok s' \<and>
        v \<noteq> Stop_Err \<and> (v = Stop_All \<longrightarrow> args_done d')"
      using Cons.prems(3) v True by (intro Cons.IH) (simp_all add: mallocs_ok_def)
    then show ?thesis by (simp add: bnd_run v(1) True)
  next
    case False
    then show ?thesis using v by (simp add: run mallocs_ok_def)
  qed
qed

lemma parse_cli_mes_safe:
  assumes h: "holds d cs" "cs \<noteq> []" and ok: "parsing_ok d" "mallocs_ok s" "sane_bytes cs d s"
  shows "\<exists>d' s'. parse_cli_mes d s = (Ret d', s') \<and> parsing_ok d' \<and> mallocs_ok s' \<and> exit_status d' \<noteq> ERR \<and>
    length (read_buffer d') = length (read_buffer d) \<and> 0 \<le> cur_buffer_size d' \<and>
    cur_buffer_size d' < cur_buffer_size d \<and> (exit_status d' = ALL_READ \<longrightarrow> args_done d')"
proof -
  obtain v d1 r s1 where f: "feed cs d s = (Ret (v, d1, r), s1)" "parsing_ok d1" "mallocs_ok s1"
      "v \<noteq> Stop_Err" "v = Stop_All \<longrightarrow> args_done d1"
    using feed_safe [OF ok] by (elim exE conjE) (rule that)
  have size: "cur_buffer_size d = int (length cs)" "length cs \<le> length (read_buffer d)"
    using h(1) by (simp_all add: holds_def)
  have b: "read_buffer d1 = read_buffer d" using feed_frame [OF f(1)] by simp
  have p: "parse_cli_mes d s = (Ret (finish_parse (v, d1, r)), s1)"
    using parse_cli_mes_feed [OF h, of s] f(1) by (simp add: run)
  show ?thesis
  proof (cases v)
    case Go
    then show ?thesis using p f size h(2) b
      by (simp add: finish_parse_def)
  next
    case Stop_All
    then have "length r < length cs" using feed_rest_length [OF f(1)] by simp
    then show ?thesis using p f size b Stop_All
      by (simp add: finish_parse_def with_buffer_def)
  qed (use f(4) in simp)
qed

section \<open>A negative length\<close>

lemma negative_length_stops:
  assumes d: "idle d" and n: "2 \<le> n" "int n < 2 ^ 31" and m: "mallocs_ok s"
  shows "\<exists>d' ms. feed (header 1 @ ''$-'' @ dec n @ CR # x) d s = (Ret (Stop_Err, d', x), s\<lparr>mallocs := ms\<rparr>) \<and>
    exit_status d' = ERR \<and> read_status d' = STRING_WAIT \<and> parsing_str (parsing d') = NULL"
proof -
  let ?d0 = "args_state 1 [] d" and ?s = "s\<lparr>mallocs := tl (mallocs s)\<rparr>"
  let ?d1 = "?d0\<lparr>parsing := (parsing ?d0)\<lparr>is_negative := True\<rparr>, read_status := NUM_WAIT\<rparr>"
  let ?d2 = "?d1\<lparr>parsing := (parsing ?d1)\<lparr>parsing_num := int n\<rparr>\<rparr>"
  have "feed (header 1) d s = (Ret (Go, ?d0, []), ?s)"
    using feed_request_header [OF d, of 1 s] m by simp
  moreover have "feed ''$-'' ?d0 ?s = (Ret (Go, ?d1, []), ?s)"
    by (simp add: args_state_def parse_sym_def run is_digit_def)
  moreover have "feed (dec n) ?d1 ?s = (Ret (Go, ?d2, []), ?s)"
    using feed_digits [of ?d1 "dec n" ?s] dec_digits [of _ n] num_fold_dec [of n] n by (simp add: args_state_def)
  moreover obtain d' ms where "feed (CR # x) ?d2 ?s = (Ret (Stop_Err, d', x), s\<lparr>mallocs := ms\<rparr>)"
      "exit_status d' = ERR \<and> read_status d' = STRING_WAIT \<and> parsing_str (parsing d') = NULL"
    using n by (auto simp: parse_sym_def end_number_def args_state_def run Let_def int_range_def is_digit_def)
  ultimately have "feed (header 1 @ ''$-'' @ dec n @ CR # x) d s = (Ret (Stop_Err, d', x), s\<lparr>mallocs := ms\<rparr>)"
      "exit_status d' = ERR \<and> read_status d' = STRING_WAIT \<and> parsing_str (parsing d') = NULL"
    by (simp_all only: feed_append_Go)
  then show ?thesis by blast
qed

lemma null_string_faults:
  assumes "read_status d = STRING_WAIT" and "parsing_str (parsing d) = NULL"
  shows "fst (feed (header 1 @ c # x) d s) = Fault Null_Deref"
  using assms by (simp add: header_def dec.simps [of "Suc 0"] parse_sym_def string_sym_def run is_digit_def)

lemma serve_loop_break:
  assumes "reset_request (read_data d) s = (Ret r0, s1)" and "parse_cli_mes r0 s1 = (Ret r1, s2)"
    and "exit_status r1 \<noteq> ALL_READ"
  shows "serve_loop D P d pg rd_out s = (Ret (True, d\<lparr>read_data := r1\<rparr>, pg, rd_out), s2)"
  using assms by (simp add: serve_loop.simps [of D P d] serve_one_def Let_def run)

lemma serve_loop_fault:
  assumes "reset_request (read_data d) s = (Ret r0, s1)" and "fst (parse_cli_mes r0 s1) = Fault u"
  shows "fst (serve_loop D P d pg rd_out s) = Fault u"
  using assms by (cases "parse_cli_mes r0 s1") (simp add: serve_loop.simps [of D P d] serve_one_def Let_def run)

section \<open>A packet that completes no request\<close>

text \<open>What the read callback does with it: nothing is queued, nothing is sent, and only this client's
  parsing state and the allocator change.  (The write watcher is started for replies queued before.)\<close>

definition parsed_on :: "Tsocket_data \<Rightarrow> Tsocket_read_data \<Rightarrow> client \<Rightarrow> client" where
  "parsed_on d r c = c\<lparr>io_data := Ptr (d\<lparr>read_data := r\<rparr>), writer_on := writer_on c \<or> 0 < size_answer (write_data d)\<rparr>"

lemma read_incomplete:
  fixes s :: "('h, 'd, 'e) world_scheme"
  assumes i: "i < length (clients s)" and d: "io_data (clients s ! i) = Ptr d" "fresh_buffer (read_data d)"
      "at_boundary (read_data d)" and p: "packet p" and ok: "mallocs_ok s"
  obtains d0 and s2 :: "('h, 'd, 'e) world_scheme" where "idle d0" "holds d0 p" "length (read_buffer d0) = 200"
    "mallocs_ok s2"
    "\<And>f ms. feed p d0 s2 = (Ret f, s2\<lparr>mallocs := ms\<rparr>) \<Longrightarrow> exit_status (finish_parse f) \<noteq> ALL_READ \<Longrightarrow>
       on_read_cb D P i False (Some p) s =
         (Ret (), s\<lparr>mallocs := ms, clients := (clients s)[i := parsed_on d (finish_parse f) (clients s ! i)]\<rparr>)"
proof -
  define d2 where "d2 = d\<lparr>read_data := receive p (read_data d)\<rparr>"
  define s2 where "s2 = s\<lparr>clients := (clients s)[i := (clients s ! i)\<lparr>io_data := Ptr d2\<rparr>]\<rparr>"
  have h: "holds (read_data d2) p" "length (read_buffer (read_data d2)) = 200"
    using receive_holds [OF d(2) p] p d(2) by (simp_all add: d2_def receive_def fresh_buffer_def packet_def)
  have bd: "at_boundary (read_data d2)" using d(3) by (simp add: d2_def receive_def at_boundary_def idle_def)
  obtain d0 where d0: "reset_request (read_data d2) s2 = (Ret d0, s2)" "idle d0"
      "read_buffer d0 = read_buffer (read_data d2)" "cur_buffer_size d0 = cur_buffer_size (read_data d2)"
    using reset_boundary [OF bd, of s2] by (elim exE conjE) (rule that)
  have h0: "holds d0 p" using holds_reset [OF h(1) d0(3,4)] .
  show thesis
  proof (rule that [of d0 s2])
    show "length (read_buffer d0) = 200" using d0(3) h(2) by simp
    show "mallocs_ok s2" using ok by (simp add: s2_def mallocs_ok_def)
    fix f ms
    assume f: "feed p d0 s2 = (Ret f, s2\<lparr>mallocs := ms\<rparr>)" and open_request: "exit_status (finish_parse f) \<noteq> ALL_READ"
    let ?s3 = "s2\<lparr>mallocs := ms\<rparr>" and ?d3 = "d2\<lparr>read_data := finish_parse f\<rparr>"
    have "parse_cli_mes d0 s2 = (Ret (finish_parse f), ?s3)"
      using parse_cli_mes_feed [OF h0, of s2] p f by (simp add: packet_def run)
    then have loop: "serve_loop D P d2 (NULL, 0) (NULL, 0) s2 = (Ret (True, ?d3, (NULL, 0), (NULL, 0)), ?s3)"
      using serve_loop_break [OF d0(1)] open_request by simp
    have i2: "i < length (clients ?s3)" "io_data (clients ?s3 ! i) = Ptr d2" using i by (simp_all add: s2_def)
    have stored: "set_data i ?d3 ?s3 = (Ret (), s\<lparr>mallocs := ms, clients := (clients s)[i :=
        (clients s ! i)\<lparr>io_data := Ptr (d\<lparr>read_data := finish_parse f\<rparr>)\<rparr>]\<rparr>)"
      using i set_data_run [OF i2, of ?d3] by (simp add: s2_def d2_def)
    have w: "write_data ?d3 = write_data d" by (simp add: d2_def)
    let ?s4 = "s\<lparr>mallocs := ms, clients := (clients s)[i := (clients s ! i)\<lparr>io_data := Ptr (d\<lparr>read_data := finish_parse f\<rparr>)\<rparr>]\<rparr>"
    have "on_read_cb D P i False (Some p) s =
        sq (if 0 < size_answer (write_data d) then upd_client i (\<lambda>c. c\<lparr>writer_on := True\<rparr>) else ret ())
           (sq (free_ptr (NULL :: buffer ptr)) (free_ptr (NULL :: buffer ptr))) ?s4"
      by (simp only: on_read_cb_loop [OF i d(1) fresh_fits [OF d(2) p] d2_def] s2_def [symmetric]
            bnd_Ret [of "serve_loop D P d2 (NULL, 0) (NULL, 0)", OF loop] prod.case sq_Ret [of "set_data i _", OF stored]
            w fst_conv simp_thms if_False)
    moreover have "parsed_on d (finish_parse f) (clients s ! i) = (if 0 < size_answer (write_data d)
        then (clients s ! i)\<lparr>io_data := Ptr (d\<lparr>read_data := finish_parse f\<rparr>), writer_on := True\<rparr>
        else (clients s ! i)\<lparr>io_data := Ptr (d\<lparr>read_data := finish_parse f\<rparr>)\<rparr>)"
      by (cases "clients s ! i") (simp add: parsed_on_def)
    ultimately show "on_read_cb D P i False (Some p) s =
         (Ret (), s\<lparr>mallocs := ms, clients := (clients s)[i := parsed_on d (finish_parse f) (clients s ! i)]\<rparr>)"
      using i by (simp add: run)
  qed (rule d0(2), rule h0)
qed

text \<open>The packet with the negative length is answered by nothing; the parser is left waiting for a line feed
  with a null string buffer, and the next read parses the first bytes of that same packet again.\<close>

lemma negative_length_crashes:
  fixes s :: "('h, 'd, 'e) world_scheme"
  assumes i: "i < length (clients s)" and d: "io_data (clients s ! i) = Ptr d" "fresh_buffer (read_data d)"
      "at_boundary (read_data d)" and n: "2 \<le> n" "int n < 2 ^ 31" and ok: "mallocs_ok s"
    and p: "p = header 1 @ ''$-'' @ dec n @ CRLF" and q: "5 \<le> length q" "length p + length q \<le> 200"
  shows "\<exists>r ms s1. on_read_cb D P i False (Some p) s = (Ret (), s1) \<and>
    s1 = s\<lparr>mallocs := ms, clients := (clients s)[i := parsed_on d r (clients s ! i)]\<rparr> \<and>
    fst (on_read_cb D P i False (Some q) s1) = Fault Null_Deref"
proof -
  have head: "p = ''*1'' @ CRLF @ ''$-'' @ dec n @ CRLF" by (simp add: p header_def dec.simps [of "Suc 0"])
  have pk: "packet p" using q by (auto simp: packet_def head)
  obtain d0 and s2 :: "('h, 'd, 'e) world_scheme" where d0: "idle d0" "holds d0 p" "length (read_buffer d0) = 200" "mallocs_ok s2"
    and first: "\<And>f ms. feed p d0 s2 = (Ret f, s2\<lparr>mallocs := ms\<rparr>) \<Longrightarrow> exit_status (finish_parse f) \<noteq> ALL_READ \<Longrightarrow>
       on_read_cb D P i False (Some p) s =
         (Ret (), s\<lparr>mallocs := ms, clients := (clients s)[i := parsed_on d (finish_parse f) (clients s ! i)]\<rparr>)"
    using read_incomplete [OF i d pk ok, of D P] by blast
  obtain d3 ms where d3: "feed p d0 s2 = (Ret (Stop_Err, d3, [LF]), s2\<lparr>mallocs := ms\<rparr>)" "exit_status d3 = ERR"
      "read_status d3 = STRING_WAIT" "parsing_str (parsing d3) = NULL"
    using negative_length_stops [OF d0(1) n d0(4), of "[LF]"] unfolding p [symmetric] by blast
  have frame: "cur_buffer_size d3 = int (length p)" "read_buffer d3 = read_buffer d0"
    using feed_frame [OF d3(1)] d0(2) by (simp_all add: holds_def)
  define s3 where "s3 = s\<lparr>mallocs := ms, clients := (clients s)[i := parsed_on d d3 (clients s ! i)]\<rparr>"
  have one: "on_read_cb D P i False (Some p) s = (Ret (), s3)"
    using first [OF d3(1)] d3(2) by (simp add: finish_parse_def s3_def)
  have s3: "i < length (clients s3)" "io_data (clients s3 ! i) = Ptr (d\<lparr>read_data := d3\<rparr>)"
    using i by (simp_all add: s3_def parsed_on_def)
  have f: "fits (read_data (d\<lparr>read_data := d3\<rparr>)) q" using q frame d0(3) by (auto simp: fits_def)
  define d4 where "d4 = (d\<lparr>read_data := d3\<rparr>)\<lparr>read_data := receive q d3\<rparr>"
  have d4': "d4 = (d\<lparr>read_data := d3\<rparr>)\<lparr>read_data := receive q (read_data (d\<lparr>read_data := d3\<rparr>))\<rparr>"
    by (simp add: d4_def)
  define s4 where "s4 = s3\<lparr>clients := (clients s3)[i := (clients s3 ! i)\<lparr>io_data := Ptr d4\<rparr>]\<rparr>"
  have st4: "read_status (read_data d4) = STRING_WAIT" "parsing_str (parsing (read_data d4)) = NULL"
      "exit_status (read_data d4) = ERR"
    using d3 by (simp_all add: d4_def receive_def)
  have p_take: "take (length p) (read_buffer d3) = cells p" using d0(2) frame by (simp add: holds_def)
  have p1: "4 \<le> length p" by (simp add: head)
  have h4: "holds (read_data d4) (take (length q) (p @ q))"
    using p_take frame q d0(3) p1 by (simp add: d4_def receive_def holds_def blit_def take_map min_def)
  obtain k where "length q = Suc (Suc (Suc (Suc (Suc k))))" using le_Suc_ex [OF q(1)] by auto
  then have bytes: "take (length q) (p @ q) = header 1 @ CHR ''$'' # take k (CHR ''-'' # dec n @ CRLF @ q)"
    by (simp add: p header_def dec.simps [of "Suc 0"])
  have "fst (feed (take (length q) (p @ q)) (read_data d4) s4) = Fault Null_Deref"
    unfolding bytes by (rule null_string_faults [OF st4(1,2)])
  moreover have "take (length q) (p @ q) \<noteq> []" using bytes by (simp only: append_is_Nil_conv list.distinct) simp
  ultimately have "fst (parse_cli_mes (read_data d4) s4) = Fault Null_Deref"
    unfolding parse_cli_mes_feed [OF h4, of s4]
    by (cases "feed (take (length q) (p @ q)) (read_data d4) s4") (simp add: parse_cli_mes_feed [OF h4] map_ret_run)
  moreover have "reset_request (read_data d4) s4 = (Ret (read_data d4), s4)"
    using st4(3) by (simp add: reset_request_def ret_run)
  ultimately have "fst (serve_loop D P d4 (NULL, 0) (NULL, 0) s4) = Fault Null_Deref"
    using serve_loop_fault by blast
  then have "fst (on_read_cb D P i False (Some q) s3) = Fault Null_Deref"
    unfolding on_read_cb_loop [OF s3 f d4'] s4_def [symmetric]
    by (cases "serve_loop D P d4 (NULL, 0) (NULL, 0) s4") (simp add: bnd_run)
  then show ?thesis using one s3_def by blast
qed

section \<open>A disconnect inside a request\<close>

text \<open>\<^verbatim>\<open>argc\<close> is what the request announces; the entries of \<^verbatim>\<open>argv\<close> behind those that have come are
  indeterminate.\<close>

lemma free_args_partly:
  "\<forall>p \<in> set xs. \<exists>b. p = Some (Ptr b) \<Longrightarrow> free_args (length xs + Suc k) (xs @ None # ys) = flt Uninitialised"
  by (induction xs) (auto simp: sq_def free_ptr_def)

lemma free_argv_partly:
  fixes s :: 's
  assumes "length done < n"
  shows "free_argv ((args_state n done d)\<lparr>read_buffer := b, cur_buffer_size := m\<rparr>) s = (Fault Uninitialised, s)"
proof -
  obtain k where k: "n = length done + Suc k" using assms less_iff_Suc_add by auto
  have "(free_args (length (map stored_arg done) + Suc k) (map stored_arg done @ None # replicate k None) :: ('s, unit) prog) =
      flt Uninitialised"
    by (rule free_args_partly) auto
  then have "free_args n (map stored_arg done @ None # replicate k None) s = (Fault Uninitialised, s)" by (simp add: k flt_run)
  moreover have "replicate (n - length done) (None :: buffer ptr option) = None # replicate k None" by (simp add: k)
  moreover have "0 < n" using assms by simp
  ultimately show ?thesis by (simp add: free_argv_def args_state_def run)
qed

lemma disconnect_inside_request:
  fixes s :: "('h, 'd, 'e) world_scheme"
  assumes i: "i < length (clients s)" and d: "io_data (clients s ! i) = Ptr d" "fresh_buffer (read_data d)"
      "at_boundary (read_data d)" and ok: "mallocs_ok s" and good: "good_args (as @ bs)" "bs \<noteq> []"
    and p: "p = header (length (as @ bs)) @ concat (map arg_frame as)" "packet p" and e: "input = None \<or> input = Some []"
  shows "\<exists>s1 s2. on_read_cb D P i False (Some p) s = (Ret (), s1) \<and>
    on_read_cb D P i False input s1 = (Fault Uninitialised, s2) \<and> \<not> fd_open (clients s2 ! i)"
proof -
  obtain n where n: "length (as @ bs) = n" by simp
  obtain d0 and s2 :: "('h, 'd, 'e) world_scheme" where d0: "idle d0" "holds d0 p" "length (read_buffer d0) = 200" "mallocs_ok s2"
    and first: "\<And>f ms. feed p d0 s2 = (Ret f, s2\<lparr>mallocs := ms\<rparr>) \<Longrightarrow> exit_status (finish_parse f) \<noteq> ALL_READ \<Longrightarrow>
       on_read_cb D P i False (Some p) s =
         (Ret (), s\<lparr>mallocs := ms, clients := (clients s)[i := parsed_on d (finish_parse f) (clients s ! i)]\<rparr>)"
    using read_incomplete [OF i d p(2) ok, of D P] by blast
  have args: "\<forall>a \<in> set as. a \<noteq> [] \<and> int (length a) < 2 ^ 31 - 1" "length ([] :: string list) + length as < n"
      "0 < n" "int n < 2 ^ 31"
    using good by (auto simp: good_args_def n [symmetric])
  have "feed (header n) d0 s2 = (Ret (Go, args_state n [] d0, []), s2\<lparr>mallocs := tl (mallocs s2)\<rparr>)"
    by (rule feed_request_header [OF d0(1) args(3,4) d0(4)])
  moreover have "feed (concat (map arg_frame as)) (args_state n [] d0) (s2\<lparr>mallocs := tl (mallocs s2)\<rparr>) =
      (Ret (Go, args_state n ([] @ as) d0, []), s2\<lparr>mallocs := drop (2 * length as) (tl (mallocs s2))\<rparr>)"
    using feed_args_prefix [OF args(1,2), of "s2\<lparr>mallocs := tl (mallocs s2)\<rparr>" d0] d0(4) by (simp add: mallocs_ok_def)
  ultimately have "feed p d0 s2 = (Ret (Go, args_state n as d0, []), s2\<lparr>mallocs := drop (2 * length as) (tl (mallocs s2))\<rparr>)"
    unfolding p(1) n by (simp add: feed_append_Go)
  moreover have "finish_parse (Go, args_state n as d0, []) = (args_state n as d0)\<lparr>read_buffer := read_buffer d0, cur_buffer_size := 0\<rparr>"
    using d0(1) by (subst finish_parse_Go) (simp_all add: args_state_def idle_def with_buffer_def)
  ultimately obtain ms where one: "on_read_cb D P i False (Some p) s = (Ret (), s\<lparr>mallocs := ms, clients := (clients s)[i :=
      parsed_on d ((args_state n as d0)\<lparr>read_buffer := read_buffer d0, cur_buffer_size := 0\<rparr>) (clients s ! i)]\<rparr>)"
    using first d0(1) by (simp add: args_state_def idle_def)
  let ?r = "(args_state n as d0)\<lparr>read_buffer := read_buffer d0, cur_buffer_size := 0\<rparr>"
  let ?s1 = "s\<lparr>mallocs := ms, clients := (clients s)[i := parsed_on d ?r (clients s ! i)]\<rparr>"
  have i1: "i < length (clients ?s1)" "io_data (clients ?s1 ! i) = Ptr (d\<lparr>read_data := ?r\<rparr>)"
    using i by (simp_all add: parsed_on_def)
  have freed: "free_argv ?r s' = (Fault Uninitialised, s')" for s' :: "('h, 'd, 'e) world_scheme"
    by (rule free_argv_partly) (use args(2) in simp)
  have "close_connection i ?s1 = (Fault Uninitialised, ?s1\<lparr>clients := (clients ?s1)[i :=
      (clients ?s1 ! i)\<lparr>writer_on := False, reader_on := False, fd_open := False\<rparr>]\<rparr>)"
    using i1 by (simp add: close_connection_def get_data_run bnd_run sq_def upd_client_run freed)
  then have "on_read_cb D P i False input ?s1 = (Fault Uninitialised, ?s1\<lparr>clients := (clients ?s1)[i :=
      (clients ?s1 ! i)\<lparr>writer_on := False, reader_on := False, fd_open := False\<rparr>]\<rparr>)"
    using e i1 by (auto simp: on_read_cb_def read_socket_def get_data_run bnd_run sq_def Let_def)
  then show ?thesis using one i by (intro exI conjI) (assumption, assumption, simp)
qed

end
