(* ===== verification/Configure_Proxy.thy ===== *)
theory Configure_Proxy
  imports Work_With_Db
begin

text \<open>
  The rest of \<^verbatim>\<open>configure_proxy/configure_proxy.c\<close>: reading \<^verbatim>\<open>redis.conf\<close> (the C library's \<^verbatim>\<open>strtol\<close>,
  \<^verbatim>\<open>fscanf\<close>, \<^verbatim>\<open>sscanf\<close> and \<^verbatim>\<open>strtok\<close> are written out as far as the code uses them) and making sure
  that every configured table exists.  A loop that may not end has \<open>None\<close> for not returning.
\<close>

section \<open>Numbers\<close>

definition is_space :: "char \<Rightarrow> bool" where
  "is_space c \<longleftrightarrow> c = CHR '' '' \<or> (9 \<le> (of_char c :: nat) \<and> (of_char c :: nat) \<le> 13)"

text \<open>\<^verbatim>\<open>strtol(nptr, &end_ptr, 10)\<close> on a C string: the value, what \<^verbatim>\<open>end_ptr\<close> points to, and whether
  \<^verbatim>\<open>errno\<close> is ERANGE.\<close>

definition cut_sign :: "string \<Rightarrow> bool \<times> string" where
  "cut_sign x = (case x of
       [] \<Rightarrow> (False, x)
     | c # y \<Rightarrow> if c = CHR ''-'' then (True, y) else if c = CHR ''+'' then (False, y) else (False, x))"

definition strtol :: "string \<Rightarrow> int \<times> string \<times> bool" where
  "strtol nptr =
     (let (negative, x) = cut_sign (dropWhile is_space nptr);
          ds = takeWhile is_digit x;
          v = (if negative then - num_fold 0 ds else num_fold 0 ds)
      in if ds = [] then (0, nptr, False)
         else if v < - (2 ^ 63) then (- (2 ^ 63), dropWhile is_digit x, True)
         else if 2 ^ 63 \<le> v then (2 ^ 63 - 1, dropWhile is_digit x, True)
         else (v, dropWhile is_digit x, False))"

text \<open>\<^verbatim>\<open>atoi\<close> on a C string.  ISO C leaves a value outside \<^verbatim>\<open>int\<close> undefined; the C libraries that PostgreSQL
  runs on return the low half of what \<^verbatim>\<open>strtol\<close> returns.  The theorems about it stay inside \<^verbatim>\<open>int\<close>.\<close>

definition atoi :: "string \<Rightarrow> int" where
  "atoi nptr = to_int (fst (strtol nptr))"

text \<open>\<open>None\<close> is the return of -1.  That nothing was converted is told by the address of the end: it
  is the whole string.\<close>

definition parse_int_from_value_correctly :: "string \<Rightarrow> int option" where
  "parse_int_from_value_correctly parameter_value =
     (let (result_of_strtol, end_ptr, range_error) = strtol parameter_value in
      if range_error then None
      else if length end_ptr = length parameter_value then None
      else if end_ptr \<noteq> [] then None
      else Some result_of_strtol)"

section \<open>The configuration file\<close>

abbreviation (input) REDIS_CONFIGURATION_MAXKEY :: nat where "REDIS_CONFIGURATION_MAXKEY \<equiv> 256"
abbreviation (input) REDIS_CONFIGURATION_MAXVALUE :: nat where "REDIS_CONFIGURATION_MAXVALUE \<equiv> 256"
abbreviation (input) REDIS_CONFIGURATION_MAXLINE :: nat where "REDIS_CONFIGURATION_MAXLINE \<equiv> 512"

text \<open>The tokens that \<^verbatim>\<open>strtok(.., " ")\<close> returns one after the other.\<close>

fun strtok_from :: "string \<Rightarrow> string \<Rightarrow> string list" where
  "strtok_from tok [] = (if tok = [] then [] else [tok])"
| "strtok_from tok (c # cs) =
     (if c = CHR '' '' then (if tok = [] then strtok_from [] cs else tok # strtok_from [] cs)
      else strtok_from (tok @ [c]) cs)"

text \<open>The loop over the tokens of \<^verbatim>\<open>save\<close>.  The head of the list is \<^verbatim>\<open>token\<close>; on a token that is not a
  number, \<^verbatim>\<open>continue\<close> goes back to the test without fetching the next one.  \<open>saved\<close> is the variable \<^verbatim>\<open>save_data\<close>,
  NULL when the allocation was refused.\<close>

type_synonym snapshots = "SnapshotData option list"

partial_function (option) save_loop ::
    "string list \<Rightarrow> bool \<Rightarrow> nat \<Rightarrow> 32 word \<Rightarrow> snapshots ptr \<Rightarrow> snapshots ptr outcome option" where
  "save_loop tokens is_cur_time cur_part period saved =
     (case tokens of
        [] \<Rightarrow> Some (Ret saved)
      | token # rest \<Rightarrow>
          (case parse_int_from_value_correctly token of
             None \<Rightarrow> save_loop tokens is_cur_time cur_part period saved
           | Some v \<Rightarrow>
               if is_cur_time then save_loop rest False cur_part (word_of_int v) saved
               else
                 (case saved of
                    NULL \<Rightarrow> Some (Fault Null_Deref)
                  | Dangling \<Rightarrow> Some (Fault Use_After_Free)
                  | Ptr arr \<Rightarrow>
                      if cur_part < length arr then
                        save_loop rest True (Suc cur_part) period
                          (Ptr (arr[cur_part :=
                             Some \<lparr>saving_period = period, actions_needed = word_of_int (atoi token)\<rparr>]))
                      else Some (Fault Out_Of_Bounds))))"

text \<open>What one line does to the configuration; \<open>parameter_value\<close> is \<open>None\<close> while the buffer is
  indeterminate, else what it holds (from an earlier line, if this one has no value).\<close>

definition config_number ::
    "string \<Rightarrow> (32 word \<Rightarrow> ProxyConfiguration \<Rightarrow> ProxyConfiguration) \<Rightarrow> ProxyConfiguration \<Rightarrow> ProxyConfiguration" where
  "config_number v set_field c =
     (case parse_int_from_value_correctly v of None \<Rightarrow> c | Some n \<Rightarrow> set_field (word_of_int n) c)"

definition strcpy_1024 :: "string \<Rightarrow> (string ptr \<Rightarrow> ProxyConfiguration \<Rightarrow> ProxyConfiguration) \<Rightarrow>
    ('e proxy_st_scheme, unit) prog" where
  "strcpy_1024 v set_field =
     bnd (malloc 1024) (\<lambda>p. bnd (deref p) (\<lambda>b. bnd (put b 0 (v @ [NUL])) (\<lambda>_.
     wr (\<lambda>s. s\<lparr>config := set_field (Ptr v) (config s)\<rparr>))))"

definition cache_regime_of :: "string \<Rightarrow> dump_status option" where
  "cache_regime_of v =
     (if v = ''no-cache'' then Some NO_CACHE else if v = ''get-cache'' then Some GET_CACHE
      else if v = ''only-cache'' then Some ONLY_CACHE else if v = ''deffer-dump'' then Some DEFFER_DUMP
      else None)"

text \<open>The result is the value buffer after the line (\<^verbatim>\<open>strtok\<close> cuts it behind its first token);
  \<open>None\<close>: the function never returns.\<close>

definition set_parameter :: "string \<Rightarrow> string \<Rightarrow> 'e proxy_st_scheme \<Rightarrow>
    (string outcome \<times> 'e proxy_st_scheme) option" where
  "set_parameter name v s =
     (if name = ''port'' then
        Some (Ret v, s\<lparr>config := config_number v (\<lambda>n c. c\<lparr>port := n\<rparr>) (config s)\<rparr>)
      else if name = ''tcp-backlog'' then
        Some (Ret v, s\<lparr>config := config_number v (\<lambda>n c. c\<lparr>backlog_size := n\<rparr>) (config s)\<rparr>)
      else if name = ''databases'' then
        Some (Ret v, s\<lparr>config := config_number v (\<lambda>n c. c\<lparr>db_count := n\<rparr>) (config s)\<rparr>)
      else if name = ''bind'' then
        Some (bnd (strcpy_1024 v (\<lambda>p c. c\<lparr>raw_bind := p\<rparr>)) (\<lambda>_. ret v) s)
      else if name = ''logfile'' then
        Some (bnd (strcpy_1024 v (\<lambda>p c. c\<lparr>logfile := p\<rparr>)) (\<lambda>_. ret v) s)
      else if name = ''daemonize'' then
        Some (Ret v, if v = ''yes'' then s\<lparr>config := (config s)\<lparr>daemonize := True\<rparr>\<rparr> else s)
      else if name = ''save'' then
        (case malloc 128 s of
           (Ret p, s1) \<Rightarrow>
             (case save_loop (strtok_from [] v) True 0 0 (if p = NULL then NULL else Ptr (replicate 16 None)) of
                None \<Rightarrow> None
              | Some (Ret filled) \<Rightarrow>
                  Some (Ret (takeWhile (\<lambda>c. c \<noteq> CHR '' '') v),
                        s1\<lparr>config := (config s1)\<lparr>save_data := filled\<rparr>\<rparr>)
              | Some (Exit e) \<Rightarrow> Some (Exit e, s1)
              | Some (Fault u) \<Rightarrow> Some (Fault u, s1))
         | (Exit e, s1) \<Rightarrow> Some (Exit e, s1)
         | (Fault u, s1) \<Rightarrow> Some (Fault u, s1))
      else if name = ''cache-regime'' then
        Some (Ret v, case cache_regime_of v of
            None \<Rightarrow> s | Some r \<Rightarrow> s\<lparr>config := (config s)\<lparr>caching_regime := r\<rparr>\<rparr>)
      else Some (Ret v, s))"

text \<open>\<^verbatim>\<open>sscanf(line, "%s %[^\n]", ..)\<close>: the name, and the value if there is one; \<open>None\<close> is EOF.\<close>

definition scan_parameter :: "string \<Rightarrow> (string \<times> string option) option" where
  "scan_parameter line =
     (let x = dropWhile is_space line;
          name = takeWhile (\<lambda>c. \<not> is_space c) x;
          v = takeWhile (\<lambda>c. c \<noteq> LF) (dropWhile is_space (dropWhile (\<lambda>c. \<not> is_space c) x))
      in if name = [] then None else Some (name, if v = [] then None else Some v))"

text \<open>One line, with the buffers \<^verbatim>\<open>parameter_name\<close> and \<^verbatim>\<open>parameter_value\<close> from before.  \<open>raw\<close> is what
  \<^verbatim>\<open>fscanf\<close> stored in \<^verbatim>\<open>line\<close>; the string ends at its first NUL.\<close>

definition config_line :: "string \<Rightarrow> string option \<times> string option \<Rightarrow> 'e proxy_st_scheme \<Rightarrow>
    ((string option \<times> string option) outcome \<times> 'e proxy_st_scheme) option" where
  "config_line raw buffers s =
     (let line = c_string raw in
      if strlen line = 0 then Some (Ret buffers, s)
      else if hd line = CHR ''#'' then Some (Ret buffers, s)
      else
        (let scanned = (case scan_parameter line of
                 None \<Rightarrow> buffers | Some (n, v) \<Rightarrow> (Some n, if v = None then snd buffers else v)) in
         case (if scan_parameter line = None then ereport_ERROR ''Error with sscanf'' s else (Ret (), s)) of
           (Exit e, s) \<Rightarrow> Some (Exit e, s)
         | (Fault u, s) \<Rightarrow> Some (Fault u, s)
         | (Ret _, s) \<Rightarrow>
             (case scanned of
                (Some name, Some v) \<Rightarrow>
                  if REDIS_CONFIGURATION_MAXKEY \<le> length name \<or> REDIS_CONFIGURATION_MAXVALUE \<le> length v
                  then Some (Fault Out_Of_Bounds, s)
                  else map_option (\<lambda>(r, s). (case r of Ret v \<Rightarrow> Ret (Some name, Some v) | Exit e \<Rightarrow> Exit e
                         | Fault u \<Rightarrow> Fault u, s)) (set_parameter name v s)
              | _ \<Rightarrow> Some (Fault Uninitialised, s))))"

text \<open>The loop over the lines.  The line feed of \<^verbatim>\<open>"%[^\n]\n"\<close> skips all white space behind the line, so
  only a line feed at the start of the file can leave \<^verbatim>\<open>line\<close> unassigned.\<close>

function config_lines :: "string \<Rightarrow> string option \<times> string option \<Rightarrow> 'e proxy_st_scheme \<Rightarrow>
    (unit outcome \<times> 'e proxy_st_scheme) option" where
  "config_lines input buffers s =
     (let line = takeWhile (\<lambda>c. c \<noteq> LF) input; rest = dropWhile (\<lambda>c. c \<noteq> LF) input in
      if input = [] then Some (Ret (), s)
      else if line = [] then Some (Fault Uninitialised, s)
      else if REDIS_CONFIGURATION_MAXLINE \<le> length line then Some (Fault Out_Of_Bounds, s)
      else
        (case config_line line buffers s of
           None \<Rightarrow> None
         | Some (Exit e, s) \<Rightarrow> Some (Exit e, s)
         | Some (Fault u, s) \<Rightarrow> Some (Fault u, s)
         | Some (Ret buffers, s) \<Rightarrow> config_lines (dropWhile is_space rest) buffers s))"
  by pat_completeness auto
termination
proof (relation "measure (\<lambda>(input, buffers, s). length input)", simp, goal_cases)
  case (1 input buffers s line rest x a b)
  have "length (dropWhile is_space rest) \<le> length rest" by (rule length_dropWhile_le)
  moreover have "length rest < length input"
    using 1 by (cases input) (auto simp: le_imp_less_Suc length_dropWhile_le)
  ultimately show ?case by simp
qed

declare config_lines.simps [simp del]

text \<open>\<open>None\<close> for the file: it could not be opened; else its bytes, and whether closing it succeeds.\<close>

definition init_configuration :: "(string \<times> bool) option \<Rightarrow> 'e proxy_st_scheme \<Rightarrow>
    (unit outcome \<times> 'e proxy_st_scheme) option" where
  "init_configuration file s =
     (let s = s\<lparr>config := DEFAULT_CONFIG\<rparr> in
      case file of
        None \<Rightarrow> Some (ereport_ERROR ''Couldn't start loading configuration from file redis.conf'' s)
      | Some (input, close_ok) \<Rightarrow>
          (case config_lines input (None, None) s of
             None \<Rightarrow> None
           | Some (Exit e, s) \<Rightarrow> Some (Exit e, s)
           | Some (Fault u, s) \<Rightarrow> Some (Fault u, s)
           | Some (Ret _, s) \<Rightarrow>
               Some (if close_ok then (Ret (), s) else ereport_ERROR ''Error on closing file redis.conf'' s)))"

definition get_configuration :: "('e proxy_st_scheme, ProxyConfiguration) prog" where
  "get_configuration = rd config"

definition free_configuration :: "('e proxy_st_scheme, unit) prog" where
  "free_configuration =
     bnd (rd config) (\<lambda>c. sq (free_ptr (raw_bind c)) (sq (free_ptr (logfile c)) (free_ptr (save_data c))))"

section \<open>The tables\<close>

definition table_name :: "nat \<Rightarrow> string" where
  "table_name i = ''redis_'' @ dec i"

text \<open>The loop of \<^verbatim>\<open>init_table\<close> over \<open>n\<close> tables from number \<open>i\<close> on; the name goes into 12 bytes.\<close>

fun init_tables_from :: "'h dynahash \<Rightarrow> 'd libpq \<Rightarrow> string list \<Rightarrow> nat \<Rightarrow> nat \<Rightarrow>
    (('h, 'd, 'e) db_st_scheme, int) prog" where
  "init_tables_from D P table_names 0 i = ret 0"
| "init_tables_from D P table_names (Suc n) i =
     (let new_table_name = table_name i in
      if 12 < length new_table_name + 1 then flt Out_Of_Bounds
      else
        bnd (if check_table_existence table_names new_table_name then ret OK
             else create_table P new_table_name) (\<lambda>r.
        if r = ERR_REQ then ret (-1)
        else
          bnd (create_hash_table D new_table_name (int i)) (\<lambda>e.
          if e = -1 then ret (-1) else init_tables_from D P table_names n (i + 1))))"

definition init_table :: "'h dynahash \<Rightarrow> 'd libpq \<Rightarrow> (('h, 'd, 'e) db_st_scheme, int) prog" where
  "init_table D P =
     bnd (init_work_with_db P) (\<lambda>r.
     if r = -1 then ret (-1)
     else
       bnd (get_table_name P) (\<lambda>(r, table_names).
       if r = ERR_REQ then ret (-1)
       else
         bnd (rd (\<lambda>s. unat (db_count (config s)))) (\<lambda>n.
         bnd (init_tables_from D P table_names n 0) (\<lambda>r.
         if r = -1 then ret (-1) else sq finish_work_with_db (ret 0)))))"

section \<open>Numbers are read back as they are printed\<close>

lemma is_digit_not_space: "is_digit c \<Longrightarrow> \<not> is_space c"
  by (auto simp: is_digit_def is_space_def)

lemma strtol_digits:
  assumes "ds \<noteq> []" and "\<forall>c \<in> set ds. is_digit c" and "rest = [] \<or> \<not> is_digit (hd rest)"
  shows "strtol (ds @ rest) =
    (if 2 ^ 63 \<le> num_fold 0 ds then (2 ^ 63 - 1, rest, True) else (num_fold 0 ds, rest, False))"
    and "strtol (''-'' @ ds @ rest) =
    (if 2 ^ 63 < num_fold 0 ds then (- (2 ^ 63), rest, True) else (- num_fold 0 ds, rest, False))"
proof -
  have sign: "\<not> is_digit CHR ''-''" "\<not> is_digit CHR ''+''" by (simp_all add: is_digit_def)
  obtain c cs where c: "ds = c # cs" "is_digit c" "c \<noteq> CHR ''-''" "c \<noteq> CHR ''+''"
    using assms(1,2) sign by (cases ds) (simp, metis list.set_intros(1))
  have pre: "dropWhile is_space (ds @ rest) = ds @ rest" "cut_sign (ds @ rest) = (False, ds @ rest)"
    using c is_digit_not_space by (simp_all add: cut_sign_def)
  have dig: "takeWhile is_digit (ds @ rest) = ds" "dropWhile is_digit (ds @ rest) = rest"
    using assms(2,3) by (cases rest; simp add: takeWhile_append dropWhile_append)+
  have "0 \<le> num_fold 0 ds" using num_fold_nonneg assms(2) by simp
  then show "strtol (ds @ rest) =
    (if 2 ^ 63 \<le> num_fold 0 ds then (2 ^ 63 - 1, rest, True) else (num_fold 0 ds, rest, False))"
    and "strtol (''-'' @ ds @ rest) =
    (if 2 ^ 63 < num_fold 0 ds then (- (2 ^ 63), rest, True) else (- num_fold 0 ds, rest, False))"
    using assms(1) by (simp_all add: strtol_def pre dig, simp add: cut_sign_def is_space_def dig)
qed

lemma parse_int_dec:
  assumes "- (2 ^ 63) \<le> n" and "n < 2 ^ 63"
  shows "parse_int_from_value_correctly (dec_int n) = Some n"
proof -
  have dig: "\<forall>c \<in> set (dec k). is_digit c" for k using dec_digits by blast
  show ?thesis
    using assms strtol_digits [OF dec_nonempty dig, of "[]"]
    by (auto simp: parse_int_from_value_correctly_def dec_int_def num_fold_dec)
qed

lemma parse_int_trailing:
  assumes "\<not> is_digit c"
  shows "parse_int_from_value_correctly (dec_int n @ c # x) = None"
proof -
  have dig: "\<forall>c \<in> set (dec k). is_digit c" for k using dec_digits by blast
  show ?thesis
    using assms strtol_digits [OF dec_nonempty dig, of "c # x"]
    by (auto simp: parse_int_from_value_correctly_def dec_int_def)
qed

section \<open>The \<open>save\<close> line\<close>

text \<open>A token that is not a number is tested again and again.\<close>

lemma save_loop_returns:
  assumes "save_loop toks ct cp per p = Some y"
  shows "\<forall>arr. p = Ptr arr \<and> cp + (length toks + (if ct then 0 else 1)) div 2 \<le> length arr \<longrightarrow>
    (\<forall>t \<in> set toks. parse_int_from_value_correctly t \<noteq> None)"
proof (rule save_loop.raw_induct [OF _ assms, of "\<lambda>toks ct cp per p y.
    \<forall>arr. p = Ptr arr \<and> cp + (length toks + (if ct then 0 else 1)) div 2 \<le> length arr \<longrightarrow>
    (\<forall>t \<in> set toks. parse_int_from_value_correctly t \<noteq> None)"], goal_cases)
  case (1 f toks ct cp per p y)
  show ?case
  proof (cases toks)
    case (Cons t ts)
    show ?thesis
    proof (cases "parse_int_from_value_correctly t")
      case None
      then have "f toks ct cp per p = Some y" using 1(2) Cons by simp
      then show ?thesis by (rule 1(1))
    next
      case (Some v)
      show ?thesis
      proof (cases ct)
        case True
        then have "f ts False cp (word_of_int v) p = Some y" using 1(2) Cons Some by simp
        from 1(1) [OF this] show ?thesis using True Cons Some by simp
      next
        case False
        show ?thesis
        proof (intro allI impI)
          fix arr
          assume arr: "p = Ptr arr \<and> cp + (length toks + (if ct then 0 else 1)) div 2 \<le> length arr"
          then have "f ts True (Suc cp) per
              (Ptr (arr[cp := Some \<lparr>saving_period = per, actions_needed = word_of_int (atoi t)\<rparr>])) = Some y"
            using 1(2) Cons Some False by simp
          from 1(1) [OF this] show "\<forall>t \<in> set toks. parse_int_from_value_correctly t \<noteq> None"
            using arr False Cons Some by simp
        qed
      qed
    qed
  qed simp
qed

lemma save_loop_hangs:
  assumes "parse_int_from_value_correctly t = None" and "t \<in> set toks" and "length toks \<le> 2 * length arr + 1"
  shows "save_loop toks True 0 per (Ptr arr) = None"
proof (cases "save_loop toks True 0 per (Ptr arr)")
  case (Some y)
  have "0 + (length toks + 0) div 2 \<le> length arr" using assms(3) by simp
  then show ?thesis using save_loop_returns [OF Some] assms(1,2) by auto
qed simp

text \<open>A line of numbers in pairs fills the array from the front.\<close>

fun save_tokens :: "(int \<times> int) list \<Rightarrow> string list" where
  "save_tokens [] = []"
| "save_tokens ((period, actions) # ps) = dec_int period # dec_int actions # save_tokens ps"

definition snapshot :: "int \<times> int \<Rightarrow> SnapshotData option" where
  "snapshot pa = Some \<lparr>saving_period = word_of_int (fst pa), actions_needed = word_of_int (snd pa)\<rparr>"

definition save_pair_ok :: "int \<times> int \<Rightarrow> bool" where
  "save_pair_ok pa \<longleftrightarrow> - (2 ^ 63) \<le> fst pa \<and> fst pa < 2 ^ 63 \<and> int_range (snd pa)"

lemma atoi_dec:
  assumes "int_range n"
  shows "atoi (dec_int n) = n"
proof -
  have dig: "\<forall>c \<in> set (dec k). is_digit c" for k using dec_digits by blast
  have "fst (strtol (dec_int n)) = n"
    using assms strtol_digits [OF dec_nonempty dig, of "[]"]
    by (auto simp: dec_int_def num_fold_dec int_range_def)
  then show ?thesis using assms by (simp add: atoi_def)
qed

lemma save_loop_pairs:
  "\<forall>pa \<in> set ps. save_pair_ok pa \<Longrightarrow> cp + length ps \<le> length arr \<Longrightarrow>
   save_loop (save_tokens ps) True cp per (Ptr arr) =
   Some (Ret (Ptr (take cp arr @ map snapshot ps @ drop (cp + length ps) arr)))"
proof (induction ps arbitrary: cp per arr)
  case Nil
  then show ?case by (simp add: save_loop.simps)
next
  case (Cons pa ps)
  obtain p a where pa: "pa = (p, a)" by (cases pa)
  let ?arr = "arr[cp := Some \<lparr>saving_period = word_of_int p, actions_needed = word_of_int a\<rparr>]"
  have a: "int_range a" using Cons.prems(1) by (simp add: pa save_pair_ok_def)
  have ok: "parse_int_from_value_correctly (dec_int p) = Some p" "parse_int_from_value_correctly (dec_int a) = Some a"
    using Cons.prems(1) pa parse_int_dec by (auto simp: save_pair_ok_def int_range_def)
  have cp: "cp < length arr" using Cons.prems(2) by simp
  have "save_loop (save_tokens (pa # ps)) True cp per (Ptr arr) =
      save_loop (save_tokens ps) True (Suc cp) (word_of_int p) (Ptr ?arr)"
    using cp by (simp add: pa save_loop.simps [of "dec_int p # _"] save_loop.simps [of "dec_int a # _"] ok atoi_dec [OF a])
  also have "\<dots> = Some (Ret (Ptr (take (Suc cp) ?arr @ map snapshot ps @ drop (Suc cp + length ps) ?arr)))"
    using Cons.prems by (intro Cons.IH) auto
  also have "take (Suc cp) ?arr = take cp arr @ [snapshot (p, a)]"
    using cp by (simp add: take_Suc_conv_app_nth snapshot_def)
  finally show ?case using cp by (simp add: pa)
qed

section \<open>A well-formed file\<close>

text \<open>One line per parameter, a name and a value.\<close>

definition param_ok :: "string \<times> string \<Rightarrow> bool" where
  "param_ok p \<longleftrightarrow> (case p of (n, v) \<Rightarrow>
     n \<noteq> [] \<and> hd n \<noteq> CHR ''#'' \<and> (\<forall>c \<in> set n. \<not> is_space c) \<and> NUL \<notin> set n \<and> length n < 256 \<and>
     v \<noteq> [] \<and> LF \<notin> set v \<and> NUL \<notin> set v \<and> \<not> is_space (hd v) \<and> length v < 256)"

definition param_line :: "string \<times> string \<Rightarrow> string" where
  "param_line p = fst p @ '' '' @ snd p"

definition config_file :: "(string \<times> string) list \<Rightarrow> string" where
  "config_file ps = concat (map (\<lambda>p. param_line p @ [LF]) ps)"

fun set_parameters :: "(string \<times> string) list \<Rightarrow> 'e proxy_st_scheme \<Rightarrow>
    (unit outcome \<times> 'e proxy_st_scheme) option" where
  "set_parameters [] s = Some (Ret (), s)"
| "set_parameters ((n, v) # ps) s =
     (case set_parameter n v s of
        None \<Rightarrow> None
      | Some (Ret _, s) \<Rightarrow> set_parameters ps s
      | Some (Exit e, s) \<Rightarrow> Some (Exit e, s)
      | Some (Fault u, s) \<Rightarrow> Some (Fault u, s))"

lemma LF_space [simp]: "is_space LF" "is_space CHR '' ''"
  by (simp_all add: is_space_def)

lemma takeWhile_notin: "\<forall>c \<in> set xs. P c \<Longrightarrow> \<not> P y \<Longrightarrow> takeWhile P (xs @ y # ys) = xs"
  "\<forall>c \<in> set xs. P c \<Longrightarrow> \<not> P y \<Longrightarrow> dropWhile P (xs @ y # ys) = y # ys"
  by (induction xs) auto

lemma param_line_scan:
  assumes "param_ok (n, v)"
  shows "takeWhile (\<lambda>c. c \<noteq> LF) (param_line (n, v) @ LF # x) = param_line (n, v)"
    and "dropWhile (\<lambda>c. c \<noteq> LF) (param_line (n, v) @ LF # x) = LF # x"
    and "scan_parameter (param_line (n, v)) = Some (n, Some v)"
    and "param_line (n, v) \<noteq> []" "length (param_line (n, v)) < 512" "hd (param_line (n, v)) \<noteq> CHR ''#''"
    and "c_string (param_line (n, v)) = param_line (n, v)"
proof -
  have n: "n \<noteq> []" "\<forall>c \<in> set n. \<not> is_space c" "\<forall>c \<in> set n. c \<noteq> LF" "hd n \<noteq> CHR ''#''" "length n < 256"
    and v: "v \<noteq> []" "LF \<notin> set v" "\<not> is_space (hd v)" "length v < 256"
    using assms by (auto simp: param_ok_def)
  have nolf: "\<forall>c \<in> set (param_line (n, v)). c \<noteq> LF" using n(3) v(2) by (auto simp: param_line_def)
  show "takeWhile (\<lambda>c. c \<noteq> LF) (param_line (n, v) @ LF # x) = param_line (n, v)"
    and "dropWhile (\<lambda>c. c \<noteq> LF) (param_line (n, v) @ LF # x) = LF # x"
    using takeWhile_notin [OF nolf] by simp_all
  have "dropWhile is_space (param_line (n, v)) = n @ CHR '' '' # v"
    using n(1,2) by (cases n) (simp_all add: param_line_def)
  moreover have "dropWhile is_space (CHR '' '' # v) = v" using v(1,3) by (cases v) simp_all
  moreover have tw: "takeWhile (\<lambda>c. c \<noteq> LF) v = v" using v(2) by (induction v) auto
  ultimately show "scan_parameter (param_line (n, v)) = Some (n, Some v)"
    using n(1) v(1) takeWhile_notin [of n "\<lambda>c. \<not> is_space c" "CHR '' ''" v] n(2)
    by (simp add: scan_parameter_def Let_def tw)
  show "param_line (n, v) \<noteq> []" "length (param_line (n, v)) < 512" "hd (param_line (n, v)) \<noteq> CHR ''#''"
    using n v by (simp_all add: param_line_def)
  show "c_string (param_line (n, v)) = param_line (n, v)"
    using assms by (intro c_string_id) (auto simp: param_ok_def param_line_def)
qed

lemma config_file_no_space: "\<forall>p \<in> set ps. param_ok p \<Longrightarrow> dropWhile is_space (LF # config_file ps) = config_file ps"
  by (cases ps) (auto simp: config_file_def param_line_def param_ok_def dropWhile_eq_self_iff hd_append)

lemma config_lines_file:
  "\<forall>p \<in> set ps. param_ok p \<Longrightarrow> config_lines (config_file ps) buffers s = set_parameters ps s"
proof (induction ps arbitrary: buffers s)
  case Nil
  show ?case by (subst config_lines.simps) (simp add: config_file_def)
next
  case (Cons p ps)
  obtain n v where p: "p = (n, v)" by (cases p)
  have ok: "param_ok (n, v)" "\<forall>p \<in> set ps. param_ok p" using Cons.prems by (auto simp: p)
  note L = param_line_scan [OF ok(1)]
  have split: "config_file (p # ps) = param_line (n, v) @ LF # config_file ps"
    by (simp add: config_file_def p)
  have len: "length n < 256" "length v < 256" using ok(1) by (auto simp: param_ok_def)
  have line: "config_line (param_line (n, v)) buffers s =
      map_option (\<lambda>(r, s). (case r of Ret v \<Rightarrow> Ret (Some n, Some v) | Exit e \<Rightarrow> Exit e | Fault u \<Rightarrow> Fault u, s))
        (set_parameter n v s)"
    using L(3,4,6,7) len by (simp add: config_line_def Let_def strlen_def)
  have "config_lines (param_line (n, v) @ LF # config_file ps) buffers s =
      (case config_line (param_line (n, v)) buffers s of
         None \<Rightarrow> None
       | Some (Exit e, s) \<Rightarrow> Some (Exit e, s)
       | Some (Fault u, s) \<Rightarrow> Some (Fault u, s)
       | Some (Ret buffers, s) \<Rightarrow> config_lines (dropWhile is_space (LF # config_file ps)) buffers s)"
    using L(5) by (subst config_lines.simps) (simp add: Let_def L(1,2,4) del: dropWhile.simps)
  then have "config_lines (config_file (p # ps)) buffers s =
      (case config_line (param_line (n, v)) buffers s of
         None \<Rightarrow> None
       | Some (Exit e, s) \<Rightarrow> Some (Exit e, s)
       | Some (Fault u, s) \<Rightarrow> Some (Fault u, s)
       | Some (Ret buffers, s) \<Rightarrow> config_lines (config_file ps) buffers s)"
    unfolding split config_file_no_space [OF ok(2)] .
  then show ?case
    using Cons.IH [OF ok(2)] by (auto simp: line p split: option.splits outcome.splits)
qed

text \<open>The line \<^verbatim>\<open>save\<close> of such a file: the numbers, one blank between them.\<close>

fun blank_separated :: "string list \<Rightarrow> string" where
  "blank_separated [] = []"
| "blank_separated [t] = t"
| "blank_separated (t # ts) = t @ '' '' @ blank_separated ts"

definition save_text :: "(int \<times> int) list \<Rightarrow> string" where
  "save_text ps = blank_separated (save_tokens ps)"

lemma strtok_word: "CHR '' '' \<notin> set t \<Longrightarrow> strtok_from tok (t @ x) = strtok_from (tok @ t) x"
  by (induction t arbitrary: tok) auto

lemma strtok_blank_separated:
  "\<forall>t \<in> set ts. t \<noteq> [] \<and> CHR '' '' \<notin> set t \<Longrightarrow> strtok_from [] (blank_separated ts) = ts"
proof (induction ts rule: blank_separated.induct)
  case (2 t)
  then show ?case using strtok_word [of t "[]" "[]"] by simp
qed (simp_all add: strtok_word)

lemma set_blank_separated: "c \<in> set (blank_separated ts) \<Longrightarrow> c = CHR '' '' \<or> (\<exists>t \<in> set ts. c \<in> set t)"
  by (induction ts rule: blank_separated.induct) auto

lemma dec_int_char: "c \<in> set (dec_int n) \<Longrightarrow> is_digit c \<or> c = CHR ''-''"
  using dec_digits by (auto simp: dec_int_def split: if_splits)

lemma dec_int_nonempty: "dec_int n \<noteq> []"
  by (simp add: dec_int_def)

lemma save_tokens_are: "t \<in> set (save_tokens ps) \<Longrightarrow> \<exists>n. t = dec_int n"
  by (induction ps rule: save_tokens.induct) auto

lemma not_number_chars: "\<not> is_digit CHR '' ''" "\<not> is_digit LF" "\<not> is_digit NUL"
  by (simp_all add: is_digit_def)

lemma strtok_save_text: "strtok_from [] (save_text ps) = save_tokens ps"
  unfolding save_text_def
proof (rule strtok_blank_separated, rule ballI)
  fix t
  assume "t \<in> set (save_tokens ps)"
  then obtain n where "t = dec_int n" using save_tokens_are by blast
  then show "t \<noteq> [] \<and> CHR '' '' \<notin> set t"
    using dec_int_char [of "CHR '' ''" n] not_number_chars dec_int_nonempty by auto
qed

lemma save_text_char: "c \<in> set (save_text ps) \<Longrightarrow> is_digit c \<or> c = CHR ''-'' \<or> c = CHR '' ''"
  using set_blank_separated [of c "save_tokens ps"] save_tokens_are dec_int_char unfolding save_text_def by blast

lemma hd_save_text:
  assumes "ps \<noteq> []"
  shows "save_text ps \<noteq> [] \<and> (is_digit (hd (save_text ps)) \<or> hd (save_text ps) = CHR ''-'')"
proof -
  obtain p a ps' where ps: "ps = (p, a) # ps'" using assms by (cases ps) auto
  obtain c cs where c: "dec_int p = c # cs" using dec_int_nonempty by (cases "dec_int p") auto
  then have "is_digit c \<or> c = CHR ''-''" using dec_int_char [of c p] by simp
  then show ?thesis using c by (simp add: save_text_def ps)
qed

lemma save_text_param:
  assumes "ps \<noteq> []" and "length (save_text ps) < 256"
  shows "param_ok (''save'', save_text ps)"
proof -
  have "LF \<notin> set (save_text ps)" "NUL \<notin> set (save_text ps)"
    using save_text_char [of LF ps] save_text_char [of NUL ps] not_number_chars by auto
  moreover have "\<not> is_space (hd (save_text ps))"
    using hd_save_text [OF assms(1)] is_digit_not_space by (auto simp: is_space_def)
  ultimately show ?thesis
    using assms(2) hd_save_text [OF assms(1)] by (simp add: param_ok_def is_space_def)
qed

lemma set_parameter_save:
  assumes "\<forall>pa \<in> set ps. save_pair_ok pa" and "length ps \<le> 16" and "mallocs_ok s"
  shows "\<exists>w. set_parameter ''save'' (save_text ps) s =
    Some (Ret w, s\<lparr>config := (config s)\<lparr>save_data := Ptr (map snapshot ps @ replicate (16 - length ps) None)\<rparr>,
      mallocs := tl (mallocs s)\<rparr>)"
  using save_loop_pairs [OF assms(1), of 0 "replicate 16 None" 0] assms(2,3)
  by (simp add: set_parameter_def run strtok_save_text)

section \<open>Every configured table exists\<close>

text \<open>What the code relies on for the catalogue: \<open>tabs d\<close> are the names of the public tables; a table
  that does not exist can be created and gets one empty \<^verbatim>\<open>hstore\<close>.\<close>

definition schema_laws :: "'d libpq \<Rightarrow> ('d \<Rightarrow> string \<Rightarrow> (string \<rightharpoonup> string) option) \<Rightarrow> ('d \<Rightarrow> string list) \<Rightarrow> bool" where
  "schema_laws P hv tabs \<longleftrightarrow>
     (\<forall>d. \<exists>d'. pq_exec P d sql_get_tables =
          (\<lparr>res_status = PGRES_TUPLES_OK, res_rows = map (\<lambda>t. [t]) (tabs d)\<rparr>, d') \<and>
        hv d' = hv d \<and> tabs d' = tabs d) \<and>
     (\<forall>d i. table_name i \<notin> set (tabs d) \<longrightarrow>
        (\<exists>r1 d1 r2 d2.
           pq_exec P d (sql_create_table (table_name i)) = (\<lparr>res_status = PGRES_COMMAND_OK, res_rows = r1\<rparr>, d1) \<and>
           pq_exec P d1 (sql_create_hstore (table_name i)) = (\<lparr>res_status = PGRES_COMMAND_OK, res_rows = r2\<rparr>, d2) \<and>
           hv d2 = (hv d)(table_name i \<mapsto> Map.empty) \<and> set (tabs d2) = insert (table_name i) (set (tabs d))))"

lemma table_name_inj [simp]: "table_name i = table_name j \<longleftrightarrow> i = j"
  using dec_inj by (auto simp: table_name_def)

lemma table_name_length: "i < 100000 \<Longrightarrow> length (table_name i) + 1 \<le> 12"
  using length_dec [of i 5] by (simp add: table_name_def)

lemma create_table_spec:
  assumes S: "schema_laws P hv tabs" and s: "mallocs_ok s" "conn s = Ptr ()" and i: "i < 100000"
    and new: "table_name i \<notin> set (tabs (server s))"
  shows "\<exists>ms r d. create_table P (table_name i) s = (Ret OK, s\<lparr>mallocs := ms, res := r, server := d\<rparr>) \<and>
    no_refusal ms \<and> r \<noteq> Dangling \<and> hv d = (hv (server s))(table_name i \<mapsto> Map.empty) \<and>
    set (tabs d) = insert (table_name i) (set (tabs (server s)))"
proof -
  let ?t = "table_name i"
  obtain r1 d1 r2 d2 where d:
      "pq_exec P (server s) (sql_create_table ?t) = (\<lparr>res_status = PGRES_COMMAND_OK, res_rows = r1\<rparr>, d1)"
      "pq_exec P d1 (sql_create_hstore ?t) = (\<lparr>res_status = PGRES_COMMAND_OK, res_rows = r2\<rparr>, d2)"
      "hv d2 = (hv (server s))(?t \<mapsto> Map.empty)" "set (tabs d2) = insert ?t (set (tabs (server s)))"
    using S new unfolding schema_laws_def by blast
  have "strlen ?t < 12" "0 \<le> strlen ?t" using table_name_length [OF i] by (simp_all add: strlen_def)
  then have "create_table P ?t s = (Ret OK, s\<lparr>mallocs := tl (tl (mallocs s)),
      res := Ptr \<lparr>res_status = PGRES_COMMAND_OK, res_rows = r2\<rparr>, server := d2\<rparr>)"
    using s d(1,2)
    by (simp add: create_table_def Let_def run PQexec_def PQresultStatus_def mallocs_ok_def int_range_def
        sql_sizes del: strlen_nonneg)
  then show ?thesis using d(3,4) s(1) 
    by (intro exI [of _ "tl (tl (mallocs s))"] exI [of _ d2]
        exI [of _ "Ptr \<lparr>res_status = PGRES_COMMAND_OK, res_rows = r2\<rparr>"]) (simp add: mallocs_ok_def)
qed

text \<open>What \<open>n\<close> tables from number \<open>i\<close> on look like afterwards: a missing one is new and empty, and each
  has a new, empty hash table.\<close>

definition with_new_tables :: "string list \<Rightarrow> nat \<Rightarrow> nat \<Rightarrow> (string \<Rightarrow> (string \<rightharpoonup> string) option) \<Rightarrow>
    string \<Rightarrow> (string \<rightharpoonup> string) option" where
  "with_new_tables names i n v t =
     (if (\<exists>j. i \<le> j \<and> j < i + n \<and> t = table_name j) \<and> t \<notin> set names then Some Map.empty else v t)"

definition empty_tables :: "'h dynahash \<Rightarrow> nat \<Rightarrow> nat \<Rightarrow> 'h ptr option list \<Rightarrow> bool" where
  "empty_tables D i n arr \<longleftrightarrow>
     (\<forall>j. i \<le> j \<and> j < i + n \<longrightarrow> (\<exists>h. arr ! j = Some (Ptr h) \<and> (\<forall>k. hd_find D h k = None)))"

lemma with_new_tables_0 [simp]: "with_new_tables names i 0 v = v"
  by (rule ext) (auto simp: with_new_tables_def)

lemma with_new_tables_Suc:
  "with_new_tables names i (Suc n) v =
   with_new_tables names (Suc i) n (if table_name i \<in> set names then v else v(table_name i \<mapsto> Map.empty))"
proof (rule ext)
  fix t
  have "(\<exists>j. i \<le> j \<and> j < i + Suc n \<and> t = table_name j) \<longleftrightarrow>
      t = table_name i \<or> (\<exists>j. Suc i \<le> j \<and> j < Suc i + n \<and> t = table_name j)"
    by (auto simp: Suc_le_eq le_less)
  then show "with_new_tables names i (Suc n) v t =
      with_new_tables names (Suc i) n (if table_name i \<in> set names then v else v(table_name i \<mapsto> Map.empty)) t"
    by (auto simp: with_new_tables_def)
qed

lemma empty_tables_Suc:
  "empty_tables D (Suc i) n arr \<Longrightarrow> arr ! i = Some (Ptr h) \<Longrightarrow> \<forall>k. hd_find D h k = None \<Longrightarrow>
   empty_tables D i (Suc n) arr"
  unfolding empty_tables_def by (metis Suc_leI add_Suc_right add_Suc le_neq_implies_less)

lemma create_hash_table_run:
  assumes "hd_create D t KEY_SIZE DATA_SIZE = Some h" and "hashes s = Ptr arr" and "i < length arr"
  shows "create_hash_table D t (int i) s = (Ret 0, s\<lparr>hashes := Ptr (arr[i := Some (Ptr h)])\<rparr>)"
  using assms by (simp add: create_hash_table_def set_hashes_at_def run)

lemma init_tables_from_spec:
  assumes S: "schema_laws P hv tabs" and D: "dynahash_laws D" "\<And>t. hd_create D t KEY_SIZE DATA_SIZE \<noteq> None"
    and "mallocs_ok s" and "conn s = Ptr ()" and "res s \<noteq> Dangling" and "hashes s = Ptr arr"
    and "i + n \<le> length arr" and "i + n \<le> 100000"
    and "\<forall>j. i \<le> j \<and> j < i + n \<longrightarrow> (table_name j \<in> set names \<longleftrightarrow> table_name j \<in> set (tabs (server s)))"
  shows "\<exists>ms r d arr'. init_tables_from D P names n i s =
      (Ret 0, s\<lparr>mallocs := ms, res := r, server := d, hashes := Ptr arr'\<rparr>) \<and> no_refusal ms \<and>
    r \<noteq> Dangling \<and> length arr' = length arr \<and> (\<forall>j < i. arr' ! j = arr ! j) \<and> empty_tables D i n arr' \<and>
    hv d = with_new_tables names i n (hv (server s))"
  using assms(4-)
proof (induction n arbitrary: i s arr)
  case 0
  have same: "s = s\<lparr>mallocs := mallocs s, res := res s, server := server s, hashes := hashes s\<rparr>" by simp
  show ?case
    using 0 same
    by (intro exI [of _ "mallocs s"] exI [of _ "res s"] exI [of _ "server s"] exI [of _ arr])
       (auto simp: run mallocs_ok_def empty_tables_def)
next
  case (Suc n)
  let ?t = "table_name i"
  obtain h where h: "hd_create D ?t KEY_SIZE DATA_SIZE = Some h" using D(2) by blast
  then have find: "\<forall>k. hd_find D h k = None" using D(1) unfolding dynahash_laws_def by blast
  have i: "i < 100000" "length ?t + 1 \<le> 12" "i < length arr"
    using Suc.prems table_name_length [of i] by auto
  have "\<exists>ms r d. (if check_table_existence names ?t then ret OK else create_table P ?t) s =
        (Ret OK, s\<lparr>mallocs := ms, res := r, server := d\<rparr>) \<and> no_refusal ms \<and> r \<noteq> Dangling \<and>
      hv d = (if ?t \<in> set names then hv (server s) else (hv (server s))(?t \<mapsto> Map.empty)) \<and>
      (\<forall>j. Suc i \<le> j \<and> j < Suc i + n \<longrightarrow> (table_name j \<in> set names \<longleftrightarrow> table_name j \<in> set (tabs d)))"
  proof (cases "?t \<in> set names")
    case True
    then show ?thesis
      using Suc.prems
      by (intro exI [of _ "mallocs s"] exI [of _ "res s"] exI [of _ "server s"]) (simp add: run mallocs_ok_def)
  next
    case False
    then have "?t \<notin> set (tabs (server s))" using Suc.prems(7) by simp
    then obtain ms r d where "create_table P ?t s = (Ret OK, s\<lparr>mallocs := ms, res := r, server := d\<rparr>)"
        "no_refusal ms" "r \<noteq> Dangling" "hv d = (hv (server s))(?t \<mapsto> Map.empty)"
        "set (tabs d) = insert ?t (set (tabs (server s)))"
      using create_table_spec [OF S Suc.prems(1,2) i(1)] by blast
    then show ?thesis
      using False Suc.prems(7) by (intro exI [of _ ms] exI [of _ r] exI [of _ d]) simp
  qed
  then obtain ms r d where one: "(if check_table_existence names ?t then ret OK else create_table P ?t) s =
        (Ret OK, s\<lparr>mallocs := ms, res := r, server := d\<rparr>)" "no_refusal ms" "r \<noteq> Dangling"
      "hv d = (if ?t \<in> set names then hv (server s) else (hv (server s))(?t \<mapsto> Map.empty))"
      "\<forall>j. Suc i \<le> j \<and> j < Suc i + n \<longrightarrow> (table_name j \<in> set names \<longleftrightarrow> table_name j \<in> set (tabs d))"
    by blast
  let ?arr = "arr[i := Some (Ptr h)]"
  let ?s = "s\<lparr>mallocs := ms, res := r, server := d, hashes := Ptr ?arr\<rparr>"
  obtain ms' r' d' arr' where rest: "init_tables_from D P names n (Suc i) ?s =
      (Ret 0, ?s\<lparr>mallocs := ms', res := r', server := d', hashes := Ptr arr'\<rparr>)" "no_refusal ms'"
      "r' \<noteq> Dangling" "length arr' = length ?arr" "\<forall>j < Suc i. arr' ! j = ?arr ! j"
      "empty_tables D (Suc i) n arr'" "hv d' = with_new_tables names (Suc i) n (hv (server ?s))"
    using Suc.IH [of ?s ?arr "Suc i"] Suc.prems one by (auto simp: mallocs_ok_def)
  have "init_tables_from D P names (Suc n) i s =
      (Ret 0, s\<lparr>mallocs := ms', res := r', server := d', hashes := Ptr arr'\<rparr>)"
    using i one(1) rest(1) create_hash_table_run [OF h, of "s\<lparr>mallocs := ms, res := r, server := d\<rparr>" arr i] Suc.prems(4)
    by (simp add: Let_def bnd_run ret_run)
  moreover have "empty_tables D i (Suc n) arr'"
    using empty_tables_Suc [OF rest(6) _ find] rest(5) i(3) by simp
  moreover have "hv d' = with_new_tables names i (Suc n) (hv (server s))"
    using rest(7) one(4) by (simp add: with_new_tables_Suc)
  ultimately show ?case
    using rest(2-5) by (intro exI [of _ ms'] exI [of _ r'] exI [of _ d'] exI [of _ arr']) simp
qed

lemma first_column_names: "first_column (map (\<lambda>t. [t]) ts) = ret ts"
  by (induction ts) (simp_all add: bnd_def ret_def)

lemma init_work_with_db_spec:
  assumes "os_login P = Ptr user" and "strlen user < 170"
    and "pq_connect P (server s) (''user='' @ user @ '' dbname=postgres'')"
  shows "init_work_with_db P s = (Ret 0, s\<lparr>conn := Ptr (), connected := True\<rparr>)"
  using assms by (simp add: init_work_with_db_def Let_def run strlen_def)

text \<open>Everything that \<open>init_table\<close> needs of its environment.\<close>

definition db_reachable :: "'d libpq \<Rightarrow> ('d \<Rightarrow> string list) \<Rightarrow> 'd \<Rightarrow> bool" where
  "db_reachable P tabs d \<longleftrightarrow>
     (\<exists>user. os_login P = Ptr user \<and> strlen user < 170 \<and>
        (\<forall>d. pq_connect P d (''user='' @ user @ '' dbname=postgres''))) \<and>
     int (length (tabs d)) < 2 ^ 59"

lemma init_table_spec:
  assumes S: "schema_laws P hv tabs" and D: "dynahash_laws D" "\<And>t. hd_create D t KEY_SIZE DATA_SIZE \<noteq> None"
    and reach: "db_reachable P tabs (server s)" and s: "mallocs_ok s" "hashes s = Ptr arr"
    and n: "n = unat (db_count (config s))" "n \<le> length arr" "n \<le> 100000"
  shows "\<exists>ms r d arr'. init_table D P s =
      (Ret 0, s\<lparr>mallocs := ms, conn := Dangling, res := r, connected := False, server := d, hashes := Ptr arr'\<rparr>) \<and>
    no_refusal ms \<and> length arr' = length arr \<and> empty_tables D 0 n arr' \<and>
    hv d = with_new_tables (tabs (server s)) 0 n (hv (server s))"
proof -
  obtain user where u: "os_login P = Ptr user" "strlen user < 170"
      "pq_connect P (server s) (''user='' @ user @ '' dbname=postgres'')" and len: "int (length (tabs (server s))) < 2 ^ 59"
    using reach by (auto simp: db_reachable_def)
  let ?s1 = "s\<lparr>conn := Ptr (), connected := True\<rparr>"
  let ?names = "tabs (server s)"
  obtain d where d: "pq_exec P (server s) sql_get_tables =
        (\<lparr>res_status = PGRES_TUPLES_OK, res_rows = map (\<lambda>t. [t]) ?names\<rparr>, d)" "hv d = hv (server s)"
      "tabs d = ?names"
    using S unfolding schema_laws_def by blast
  let ?r = "Ptr \<lparr>res_status = PGRES_TUPLES_OK, res_rows = map (\<lambda>t. [t]) ?names\<rparr>"
  let ?s2 = "?s1\<lparr>res := ?r, server := d, mallocs := tl (mallocs s)\<rparr>"
  have names: "get_table_name P ?s1 = (Ret (OK, ?names), ?s2)"
    using d(1) len s(1)
    by (simp add: get_table_name_def run PQexec_def PQresultStatus_def PQntuples_def first_column_names
        mallocs_ok_def)
  have "mallocs_ok ?s2" using s(1) by (simp add: mallocs_ok_def)
  then obtain ms r d' arr' where loop: "init_tables_from D P ?names n 0 ?s2 =
      (Ret 0, ?s2\<lparr>mallocs := ms, res := r, server := d', hashes := Ptr arr'\<rparr>)" "no_refusal ms" "r \<noteq> Dangling"
      "length arr' = length arr" "empty_tables D 0 n arr'" "hv d' = with_new_tables ?names 0 n (hv (server ?s2))"
    using init_tables_from_spec [OF S D, of ?s2 arr 0 n ?names] s(2) n d(3) by auto
  let ?s3 = "?s2\<lparr>mallocs := ms, res := r, server := d', hashes := Ptr arr'\<rparr>"
  let ?r' = "if r = NULL then NULL else Dangling"
  have fin: "finish_work_with_db ?s3 = (Ret (), ?s3\<lparr>connected := False, res := ?r', conn := Dangling\<rparr>)"
    using loop(3) by (simp add: finish_work_with_db_def PQclear_def PQfinish_def run)
  have "sq finish_work_with_db (ret 0) ?s3 = (Ret 0, ?s3\<lparr>connected := False, res := ?r', conn := Dangling\<rparr>)"
    by (simp only: sq_Ret [of finish_work_with_db, OF fin] ret_run)
  then have "init_table D P s = (Ret 0, ?s3\<lparr>connected := False, res := ?r', conn := Dangling\<rparr>)"
    by (simp add: init_table_def bnd_Ret [of "init_work_with_db P", OF init_work_with_db_spec [OF u]]
        bnd_Ret [of "get_table_name P", OF names] bnd_run [of "rd _"] rd_run n(1) [symmetric]
        bnd_Ret [of "init_tables_from D P ?names n 0", OF loop(1)] ret_run)
  then show ?thesis
    using loop(2,4-6) d(2)
    by (intro exI [of _ ms] exI [of _ ?r'] exI [of _ d'] exI [of _ arr']) simp
qed

end
