(* ===== verification/Startup.thy ===== *)
theory Startup
  imports Serving Configure_Proxy
begin

text \<open>
  \<^verbatim>\<open>proxy_start_work\<close> of \<^verbatim>\<open>redis_proxy.c\<close>: from the configuration file to the event loop, and the proof
  that the loop starts in a state that serves the database's own content.  What libev and the socket
  calls answer is an argument.  The code behind the endless loop is never reached.
\<close>

section \<open>The worker's start\<close>

text \<open>The two watchers of the process itself: the listening socket's, and the timer with its interval.\<close>

record ('h, 'd) proxy_run = "('h, 'd) world" +
  accept_watch :: "int option"
  timer_watch :: "int option"

record start_env =
  ev_loop_ok :: bool
  listen_fd :: int
  listen_fcntl :: "int \<times> int"
  listen_reuseaddr_ok :: bool
  bind_ok :: bool
  listen_ok :: bool

definition open_listener :: "start_env \<Rightarrow> ('e c_env_scheme, bool) prog" where
  "open_listener env =
     (if \<not> ev_loop_ok env then sq (ereport_ERROR ''cannot create libev default loop'') (ret False)
      else if listen_fd env = -1 then sq (ereport_ERROR '' err socket()'') (ret False)
      else if \<not> socket_set_nonblock (listen_fcntl env) then
        sq (ereport_ERROR ''for listen socket set nonblocking mode fail'') (ret False)
      else if \<not> listen_reuseaddr_ok env then sq (ereport_ERROR ''socket()'') (ret False)
      else if \<not> bind_ok env then sq (ereport_ERROR ''bind() error'') (ret False)
      else if \<not> listen_ok env then sq (ereport_ERROR ''listen() error'') (ret False)
      else
        bnd (malloc 48) (\<lambda>accept_io_handle.
        if accept_io_handle = NULL
        then sq (ereport_ERROR ''cannot create io handle for listen socket'') (ret False)
        else ret True))"

definition start_watchers :: "start_env \<Rightarrow> (('h, 'd, 'e) proxy_run_scheme, unit) prog" where
  "start_watchers env =
     bnd get_caching_status (\<lambda>regime.
     sq (if regime = DEFFER_DUMP then
           bnd init_logger (\<lambda>_. bnd get_dump_time (\<lambda>t. wr (\<lambda>s. s\<lparr>timer_watch := Some t\<rparr>)))
         else ret ())
     (wr (\<lambda>s. s\<lparr>accept_watch := Some (listen_fd env)\<rparr>)))"

text \<open>Everything behind \<^verbatim>\<open>init_configuration\<close>.  \<open>True\<close>: the event loop is entered; \<open>False\<close>: an early return.\<close>

definition start_configured ::
    "'h dynahash \<Rightarrow> 'd libpq \<Rightarrow> start_env \<Rightarrow> (('h, 'd, 'e) proxy_run_scheme, bool) prog" where
  "start_configured D P env =
     bnd (rd (\<lambda>s. to_int (uint (db_count (config s))))) (\<lambda>n.
     bnd (init_hashes n) (\<lambda>r.
     if r = -1 then sq (ereport_ERROR ''can't init hashes'') (ret False)
     else
       bnd (init_table D P) (\<lambda>r.
       if r = -1 then sq (ereport_ERROR ''can't init tables'') (ret False)
       else
         bnd init_proxy_status (\<lambda>r.
         if r = -1 then sq (ereport_ERROR ''can't init proxy status'') (ret False)
         else
           bnd (init_work_with_db P) (\<lambda>r.
           if r \<noteq> 0 then sq (ereport_ERROR ''can't init work with db'') (ret False)
           else
             bnd (open_listener env) (\<lambda>ok.
             if \<not> ok then ret False else sq (start_watchers env) (ret True)))))))"

text \<open>\<open>None\<close>: reading the configuration never ends.\<close>

definition proxy_start_work ::
    "'h dynahash \<Rightarrow> 'd libpq \<Rightarrow> start_env \<Rightarrow> (string \<times> bool) option \<Rightarrow> ('h, 'd, 'e) proxy_run_scheme \<Rightarrow>
     (bool outcome \<times> ('h, 'd, 'e) proxy_run_scheme) option" where
  "proxy_start_work D P env file s =
     map_option (\<lambda>(r, s). case r of
         Ret _ \<Rightarrow> start_configured D P env s | Exit e \<Rightarrow> (Exit e, s) | Fault u \<Rightarrow> (Fault u, s))
       (init_configuration file s)"

section \<open>Reading parameters changes only the configuration\<close>

definition configured :: "ProxyConfiguration \<Rightarrow> bool list \<Rightarrow> 'e proxy_st_scheme \<Rightarrow> 'e proxy_st_scheme" where
  "configured c ms s = s\<lparr>config := c, mallocs := ms\<rparr>"

lemma configured_same [simp]: "configured (config s) (mallocs s) s = s"
  by (simp add: configured_def)

lemma configured_twice [simp]: "configured c ms (configured c' ms' s) = configured c ms s"
  by (simp add: configured_def)

lemma set_parameter_frame:
  assumes "set_parameter n v s = Some (Ret w, s')" and "mallocs_ok s"
  shows "s' = configured (config s') (mallocs s') s \<and> mallocs_ok s'"
  using assms
  by (auto simp: set_parameter_def strcpy_1024_def configured_def run mallocs_ok_def
      split: if_splits option.splits outcome.splits prod.splits)

lemma set_parameters_frame:
  "set_parameters ps s = Some (Ret (), s') \<Longrightarrow> mallocs_ok s \<Longrightarrow>
   s' = configured (config s') (mallocs s') s \<and> mallocs_ok s'"
proof (induction ps s rule: set_parameters.induct)
  case (1 s)
  then show ?case by simp
next
  case (2 n v ps s)
  obtain w s1 where s1: "set_parameter n v s = Some (Ret w, s1)" "set_parameters ps s1 = Some (Ret (), s')"
    using 2(2) by (auto split: option.splits outcome.splits)
  note f = set_parameter_frame [OF s1(1) 2(3)]
  have "s' = configured (config s') (mallocs s') s1" "mallocs_ok s'"
    using 2(1) [OF s1(1) refl refl s1(2)] f by simp_all
  then show ?case using f by (metis configured_twice)
qed

section \<open>The loop starts in a serving state\<close>

definition env_ready :: "start_env \<Rightarrow> bool" where
  "env_ready env \<longleftrightarrow> ev_loop_ok env \<and> listen_fd env \<noteq> -1 \<and> socket_set_nonblock (listen_fcntl env) \<and>
     listen_reuseaddr_ok env \<and> bind_ok env \<and> listen_ok env"

text \<open>What the server holds for the first table before the start: a missing table counts as empty.\<close>

definition first_table :: "('d \<Rightarrow> string \<Rightarrow> (string \<rightharpoonup> string) option) \<Rightarrow> ('d \<Rightarrow> string list) \<Rightarrow> 'd \<Rightarrow>
    (string \<rightharpoonup> string) \<Rightarrow> bool" where
  "first_table hv tabs d m \<longleftrightarrow>
     (if ''redis_0'' \<in> set (tabs d) then hv d ''redis_0'' = Some m else m = Map.empty) \<and>
     (\<forall>k v. m k = Some v \<longrightarrow> stored_ok v)"

lemma service_watches [simp]:
  "service D hv t tn R (s\<lparr>accept_watch := a\<rparr>) m u = service D hv t tn R s m u"
  "service D hv t tn R (s\<lparr>timer_watch := b\<rparr>) m u = service D hv t tn R s m u"
  by (simp_all add: service_def status_ok_def db_ok_def mallocs_ok_def cache_ok_def table_at_def
      cache_view_def [abs_def] log_covers_def log_holds_def)

lemma empty_first_table:
  assumes "empty_tables D 0 n arr" and "0 < n" and "n \<le> length arr" and "hashes s = Ptr arr"
  shows "cache_ok D 0 s" and "cache_view D 0 s = (\<lambda>k. None)"
proof -
  obtain h where h: "arr ! 0 = Some (Ptr h)" "\<forall>k. hd_find D h k = None"
    using assms(1,2) unfolding empty_tables_def by (metis add_0 le0)
  then have at: "table_at 0 s h" using assms by (cases arr) (simp_all add: table_at_def)
  then show "cache_ok D 0 s" using h(2) unfolding cache_ok_def entries_ok_def by auto
  show "cache_view D 0 s = (\<lambda>k. None)"
    using cache_view_table [OF at] h(2) by (simp add: table_view_def fun_eq_iff)
qed

lemma open_listener_spec:
  "env_ready env \<Longrightarrow> mallocs_ok s \<Longrightarrow> open_listener env s = (Ret True, s\<lparr>mallocs := tl (mallocs s)\<rparr>)"
  by (simp add: open_listener_def env_ready_def run)

text \<open>The state behind the initialisation of the tables and the status, before the watchers.\<close>

definition prepared :: "'h dynahash \<Rightarrow> ('d \<Rightarrow> string \<Rightarrow> (string \<rightharpoonup> string) option) \<Rightarrow> dump_status \<Rightarrow>
    ('h, 'd, 'e) log_st_scheme \<Rightarrow> (string \<rightharpoonup> string) \<Rightarrow> bool" where
  "prepared D hv R s m \<longleftrightarrow>
     status_ok ''redis_0'' 0 s \<and> caching_regime (config s) = R \<and> db_ok hv ''redis_0'' s m \<and>
     cache_ok D 0 s \<and> cache_view D 0 s = (\<lambda>k. None) \<and> (\<forall>k v. m k = Some v \<longrightarrow> stored_ok v)"

lemma prepared_service:
  assumes "prepared D hv R s m" and "R = DEFFER_DUMP \<Longrightarrow> log_holds ''redis_0'' s []"
  shows "service D hv ''redis_0'' 0 R s m m"
proof -
  have "overlay (\<lambda>k. None) m = m" by (simp add: overlay_def fun_eq_iff)
  moreover have "log_holds ''redis_0'' s [] \<Longrightarrow> log_covers ''redis_0'' s m m"
    unfolding log_covers_def by (intro exI [of _ "[]"]) simp
  ultimately show ?thesis using assms by (simp add: prepared_def service_def regime_view_def)
qed

lemma start_watchers_spec:
  fixes s :: "('h, 'd, 'e) proxy_run_scheme"
  assumes "prepared D hv R s m" and "op_nodes s = []" and "get_dump_time s = (Ret p, s)"
  shows "\<exists>s'. start_watchers env s = (Ret (), s') \<and> service D hv ''redis_0'' 0 R s' m m \<and>
    clients s' = clients s \<and> server s' = server s \<and> hashes s' = hashes s \<and>
    accept_watch s' = Some (listen_fd env) \<and>
    timer_watch s' = (if R = DEFFER_DUMP then Some p else timer_watch s)"
proof (cases "R = DEFFER_DUMP")
  case True
  have R: "caching_regime (config s) = DEFFER_DUMP" and ok: "mallocs_ok s"
    using assms(1) True by (auto simp: prepared_def db_ok_def)
  obtain l where l: "init_logger s = (Ret 0, s\<lparr>mallocs := tl (mallocs s), logger_op := Ptr l\<rparr>)"
      "log_holds ''redis_0'' (s\<lparr>mallocs := tl (mallocs s), logger_op := Ptr l\<rparr>) []"
    using init_logger_spec [OF ok assms(2)] by blast
  let ?s = "s\<lparr>mallocs := tl (mallocs s), logger_op := Ptr l\<rparr>"
  have "get_dump_time ?s = (Ret p, ?s)"
    using assms(3) by (cases "proxy_configure s") (simp_all add: get_dump_time_def run)
  then have "start_watchers env s = (Ret (), ?s\<lparr>timer_watch := Some p, accept_watch := Some (listen_fd env)\<rparr>)"
    using l(1) R by (simp add: start_watchers_def run)
  moreover have "prepared D hv R ?s m"
    using assms(1) by (simp add: prepared_def status_ok_def db_ok_def mallocs_ok_def cache_ok_def table_at_def
        cache_view_def [abs_def])
  then have "service D hv ''redis_0'' 0 R ?s m m" using prepared_service l(2) by blast
  ultimately show ?thesis using True by simp
next
  case False
  then have "start_watchers env s = (Ret (), s\<lparr>accept_watch := Some (listen_fd env)\<rparr>)"
    using assms(1) by (simp add: start_watchers_def prepared_def run)
  moreover have "service D hv ''redis_0'' 0 R s m m" using prepared_service [OF assms(1)] False by simp
  ultimately show ?thesis using False by simp
qed

lemma init_proxy_status_run:
  assumes "mallocs_ok s"
  shows "\<exists>q. init_proxy_status s = (Ret 0, s\<lparr>mallocs := tl (mallocs s), proxy_configure := Ptr q\<rparr>) \<and>
    status_ok ''redis_0'' 0 (s\<lparr>mallocs := tl (mallocs s), proxy_configure := Ptr q\<rparr>) \<and> dump_time q = 1"
  using assms
  by (simp add: init_proxy_status_def status_ok_def run blit_def)
     (intro exI conjI, rule refl, simp_all)

lemma init_hashes_run:
  "mallocs_ok s \<Longrightarrow> n \<le> 100000 \<Longrightarrow> init_hashes (int n) s =
     (Ret 0, s\<lparr>count_hash_table := int n, mallocs := tl (mallocs s), hashes := Ptr (replicate n None)\<rparr>)"
  by (simp add: init_hashes_def run mallocs_ok_def)

lemma init_work_reachable:
  "db_reachable P tabs d \<Longrightarrow> init_work_with_db P s = (Ret 0, s\<lparr>conn := Ptr (), connected := True\<rparr>)"
  unfolding db_reachable_def using init_work_with_db_spec by blast

lemma start_configured_spec:
  fixes s :: "('h, 'd, 'e) proxy_run_scheme"
  assumes laws: "dynahash_laws D" "\<And>t. hd_create D t KEY_SIZE DATA_SIZE \<noteq> None" "schema_laws P hv tabs"
    and reach: "db_reachable P tabs (server s)" and fresh: "mallocs_ok s" "op_nodes s = []" "clients s = []"
    and n: "0 < unat (db_count (config s))" "unat (db_count (config s)) \<le> 100000"
    and m: "first_table hv tabs (server s) m" and env: "env_ready env"
  shows "\<exists>s'. start_configured D P env s = (Ret True, s') \<and>
    sim D hv ''redis_0'' 0 (caching_regime (config s)) s' (m, []) \<and>
    (\<exists>arr. hashes s' = Ptr arr \<and> empty_tables D 0 (unat (db_count (config s))) arr) \<and>
    hv (server s') = with_new_tables (tabs (server s)) 0 (unat (db_count (config s))) (hv (server s)) \<and>
    accept_watch s' = Some (listen_fd env) \<and>
    timer_watch s' = (if caching_regime (config s) = DEFFER_DUMP then Some 1 else timer_watch s)"
proof -
  define n where "n = unat (db_count (config s))"
  have small: "n \<le> 100000" using n(2) by (simp add: n_def)
  have count: "to_int (uint (db_count (config s))) = int n"
  proof -
    have u: "uint (db_count (config s)) = int n" by (simp add: n_def)
    show ?thesis unfolding to_int_def u using small by simp
  qed
  let ?s1 = "s\<lparr>count_hash_table := int n, mallocs := tl (mallocs s), hashes := Ptr (replicate n None)\<rparr>"
  have ok1: "mallocs_ok ?s1" using fresh(1) by (simp add: mallocs_ok_def)
  obtain ms r d arr where tables: "init_table D P ?s1 =
      (Ret 0, ?s1\<lparr>mallocs := ms, conn := Dangling, res := r, connected := False, server := d, hashes := Ptr arr\<rparr>)"
      "no_refusal ms" "length arr = n" "empty_tables D 0 n arr"
      "hv d = with_new_tables (tabs (server s)) 0 n (hv (server s))"
    using init_table_spec [OF laws(3,1,2), of ?s1 "replicate n None" n] reach ok1 n by (auto simp: n_def)
  let ?s2 = "?s1\<lparr>mallocs := ms, conn := Dangling, res := r, connected := False, server := d, hashes := Ptr arr\<rparr>"
  have "mallocs_ok ?s2" using tables(2) fresh(1) by (simp add: mallocs_ok_def)
  then obtain q where status: "init_proxy_status ?s2 = (Ret 0, ?s2\<lparr>mallocs := tl (mallocs ?s2), proxy_configure := Ptr q\<rparr>)"
      "status_ok ''redis_0'' 0 (?s2\<lparr>mallocs := tl (mallocs ?s2), proxy_configure := Ptr q\<rparr>)" "dump_time q = 1"
    using init_proxy_status_run by blast
  let ?s3 = "?s2\<lparr>mallocs := tl (mallocs ?s2), proxy_configure := Ptr q\<rparr>"
  have conn: "init_work_with_db P ?s3 = (Ret 0, ?s3\<lparr>conn := Ptr (), connected := True\<rparr>)"
    by (rule init_work_reachable [OF reach])
  let ?s4 = "?s3\<lparr>conn := Ptr (), connected := True\<rparr>"
  have opened: "open_listener env ?s4 = (Ret True, ?s4\<lparr>mallocs := tl (tl ms)\<rparr>)"
    using open_listener_spec [OF env, of ?s4] tables(2) by (simp add: mallocs_ok_def)
  let ?s5 = "?s4\<lparr>mallocs := tl (tl ms)\<rparr>"
  have content: "hv d ''redis_0'' = Some m"
  proof -
    have "table_name 0 = ''redis_0''" by code_simp
    then show ?thesis using m n(1) tables(5) by (auto simp: first_table_def with_new_tables_def n_def)
  qed
  have "prepared D hv (caching_regime (config s)) ?s5 m"
    using status(2) content empty_first_table [OF tables(4), of ?s5] n(1) tables(2,3) m
    by (simp add: prepared_def status_ok_def db_ok_def mallocs_ok_def first_table_def n_def)
  then obtain s' where s': "start_watchers env ?s5 = (Ret (), s')"
      "service D hv ''redis_0'' 0 (caching_regime (config s)) s' m m" "clients s' = clients ?s5"
      "server s' = server ?s5" "hashes s' = hashes ?s5" "accept_watch s' = Some (listen_fd env)"
      "timer_watch s' = (if caching_regime (config s) = DEFFER_DUMP then Some 1 else timer_watch ?s5)"
    using start_watchers_spec [of D hv _ ?s5 m 1 env] fresh(2) status(3) by (auto simp: get_dump_time_def run)
  have "start_configured D P env s = (Ret True, s')"
    using count
    by (simp add: start_configured_def bnd_run [of "rd _"] rd_run bnd_Ret [of "init_hashes _", OF init_hashes_run [OF fresh(1) small]]
        bnd_Ret [of "init_table D P", OF tables(1) [simplified]] bnd_Ret [of init_proxy_status, OF status(1) [simplified]]
        bnd_Ret [of "init_work_with_db P", OF conn [simplified]] bnd_Ret [of "open_listener env", OF opened [simplified]]
        sq_Ret [of "start_watchers env", OF s'(1) [simplified]] ret_run)
  moreover have "sim D hv ''redis_0'' 0 (caching_regime (config s)) s' (m, [])"
    using s'(2,3) fresh(3) by (auto simp: sim_def)
  moreover have "hashes s' = Ptr arr" "server s' = d" using s'(4,5) by simp_all
  ultimately show ?thesis using s'(6,7) tables(4,5) by (auto simp: n_def)
qed

text \<open>The settings a well-formed file leaves behind, and the whole start on them.\<close>

definition file_config :: "(string \<times> string) list \<Rightarrow> ProxyConfiguration \<Rightarrow> 'e proxy_st_scheme \<Rightarrow> bool" where
  "file_config ps c s \<longleftrightarrow>
     (\<exists>s'. set_parameters ps (s\<lparr>config := DEFAULT_CONFIG\<rparr>) = Some (Ret (), s') \<and> config s' = c)"

lemma init_configuration_file:
  assumes "\<forall>p \<in> set ps. param_ok p" and "file_config ps c s" and "mallocs_ok s"
  shows "\<exists>ms. init_configuration (Some (config_file ps, True)) s = Some (Ret (), configured c ms s) \<and> no_refusal ms"
proof -
  obtain s' where s': "set_parameters ps (s\<lparr>config := DEFAULT_CONFIG\<rparr>) = Some (Ret (), s')" "config s' = c"
    using assms(2) by (auto simp: file_config_def)
  have "configured c (mallocs s') s = s'" "mallocs_ok s'"
    using set_parameters_frame [OF s'(1)] assms(3) s'(2) by (simp_all add: mallocs_ok_def configured_def)
  then show ?thesis
    using s'(1)
    by (intro exI [of _ "mallocs s'"])
       (simp add: init_configuration_def mallocs_ok_def config_lines_file [OF assms(1)])
qed

lemma proxy_start_work_spec:
  fixes s :: "('h, 'd, 'e) proxy_run_scheme"
  assumes laws: "dynahash_laws D" "\<And>t. hd_create D t KEY_SIZE DATA_SIZE \<noteq> None" "schema_laws P hv tabs"
    and reach: "db_reachable P tabs (server s)" and fresh: "mallocs_ok s" "op_nodes s = []" "clients s = []"
    and ps: "\<forall>p \<in> set ps. param_ok p" "file_config ps c s"
    and n: "0 < unat (db_count c)" "unat (db_count c) \<le> 100000"
    and m: "first_table hv tabs (server s) m" and env: "env_ready env"
  shows "\<exists>s'. proxy_start_work D P env (Some (config_file ps, True)) s = Some (Ret True, s') \<and>
    sim D hv ''redis_0'' 0 (caching_regime c) s' (m, []) \<and>
    (\<exists>arr. hashes s' = Ptr arr \<and> empty_tables D 0 (unat (db_count c)) arr) \<and>
    hv (server s') = with_new_tables (tabs (server s)) 0 (unat (db_count c)) (hv (server s)) \<and> accept_watch s' = Some (listen_fd env) \<and>
    timer_watch s' = (if caching_regime c = DEFFER_DUMP then Some 1 else timer_watch s)"
proof -
  obtain ms where conf: "init_configuration (Some (config_file ps, True)) s = Some (Ret (), configured c ms s)" "no_refusal ms"
    using init_configuration_file [OF ps fresh(1)] by blast
  have "mallocs_ok (configured c ms s)" "op_nodes (configured c ms s) = []" "clients (configured c ms s) = []"
      "server (configured c ms s) = server s" "config (configured c ms s) = c"
      "timer_watch (configured c ms s) = timer_watch s"
    using conf(2) fresh by (simp_all add: configured_def mallocs_ok_def)
  then have "\<exists>s'. start_configured D P env (configured c ms s) = (Ret True, s') \<and>
      sim D hv ''redis_0'' 0 (caching_regime c) s' (m, []) \<and>
      (\<exists>arr. hashes s' = Ptr arr \<and> empty_tables D 0 (unat (db_count c)) arr) \<and>
      hv (server s') = with_new_tables (tabs (server s)) 0 (unat (db_count c)) (hv (server s)) \<and>
      accept_watch s' = Some (listen_fd env) \<and>
      timer_watch s' = (if caching_regime c = DEFFER_DUMP then Some 1 else timer_watch s)"
    using start_configured_spec [OF laws, of "configured c ms s" m env] reach n m env by (simp split del: if_split cong: if_cong)
  then show ?thesis using conf(1) by (auto simp: proxy_start_work_def)
qed

end
