(* ===== verification/Reference_Backends.thy ===== *)
theory Reference_Backends
  imports Work_With_Db
begin

text \<open>
  Concrete instances of the two external parties: a hash table kept as a function, and a database
  server that parses and executes exactly the statements the proxy sends.  They are not part of the
  program; they show that the laws \<open>dynahash_laws\<close> and \<open>hstore_laws\<close> can hold together, and the
  concrete runs of the later theories use them.
\<close>

section \<open>A hash table\<close>

type_synonym ref_table = "string \<Rightarrow> buffer option"

definition ref_find :: "ref_table \<Rightarrow> string \<Rightarrow> buffer option" where
  "ref_find h k = (case h k of None \<Rightarrow> None | Some e \<Rightarrow> if entry_for k e then Some e else None)"

definition fresh_entry :: "string \<Rightarrow> buffer" where
  "fresh_entry k = cells k @ replicate (200 - length k) (Some NUL)"

definition ref_dynahash :: "ref_table dynahash" where
  "ref_dynahash = \<lparr>hd_create = (\<lambda>name keysize entrysize. Some Map.empty), hd_find = ref_find,
     hd_enter = (\<lambda>h k. case ref_find h k of
        Some e \<Rightarrow> Some (h, e, True)
      | None \<Rightarrow> Some (h(k \<mapsto> fresh_entry k), fresh_entry k, False)),
     hd_store = (\<lambda>h k e. h(k \<mapsto> e))\<rparr>"

lemma fresh_entry_for: "cache_key k \<Longrightarrow> entry_for k (fresh_entry k)"
  by (cases "200 - length k") (auto simp: cache_key_def entry_for_def fresh_entry_def)

lemma ref_dynahash_laws: "dynahash_laws ref_dynahash"
  unfolding dynahash_laws_def ref_dynahash_def
  by (auto simp: ref_find_def fresh_entry_for split: option.splits if_splits)

section \<open>A database server\<close>

text \<open>Cutting a prefix off, and cutting at a character.\<close>

definition strip :: "string \<Rightarrow> string \<Rightarrow> string option" where
  "strip p x = (if take (length p) x = p then Some (drop (length p) x) else None)"

definition cut :: "char \<Rightarrow> string \<Rightarrow> string \<times> string" where
  "cut c x = (takeWhile (\<lambda>d. d \<noteq> c) x, dropWhile (\<lambda>d. d \<noteq> c) x)"

lemma strip_append [simp]: "strip p (p @ x) = Some x"
  by (simp add: strip_def)

lemma cut_append: "c \<notin> set x \<Longrightarrow> cut c (x @ c # y) = (x, c # y)"
  by (auto simp: cut_def takeWhile_append dropWhile_append)

datatype stmt =
  Begin | Commit | Select string string | Exist string string | Write string cache_write

fun bind_opt :: "'a option \<Rightarrow> ('a \<Rightarrow> 'b option) \<Rightarrow> 'b option" where
  "bind_opt None f = None"
| "bind_opt (Some x) f = f x"

fun or_else :: "'a option \<Rightarrow> 'a option \<Rightarrow> 'a option" where
  "or_else None y = y"
| "or_else (Some x) y = Some x"

definition p_select :: "string \<Rightarrow> (stmt \<times> string) option" where
  "p_select x =
     bind_opt (strip (''SELECT h['' @ [QT]) x) (\<lambda>x. let (k, x) = cut QT x in
     bind_opt (strip ([QT] @ ''] FROM '') x) (\<lambda>x. let (t, x) = cut (CHR '';'') x in
     bind_opt (strip '';'' x) (\<lambda>x. Some (Select t k, x))))"

definition p_exist :: "string \<Rightarrow> (stmt \<times> string) option" where
  "p_exist x =
     bind_opt (strip (''SELECT exist(h, '' @ [QT]) x) (\<lambda>x. let (k, x) = cut QT x in
     bind_opt (strip ([QT] @ '') FROM '') x) (\<lambda>x. let (t, x) = cut (CHR '';'') x in
     bind_opt (strip '';'' x) (\<lambda>x. Some (Exist t k, x))))"

definition p_update :: "string \<Rightarrow> (stmt \<times> string) option" where
  "p_update x =
     bind_opt (strip ''UPDATE '' x) (\<lambda>x. let (t, x) = cut (CHR '' '') x in
     or_else
       (bind_opt (strip ('' SET h['' @ [QT]) x) (\<lambda>x. let (k, x) = cut QT x in
        bind_opt (strip ([QT] @ '']='' @ [QT]) x) (\<lambda>x. let (v, x) = cut QT x in
        bind_opt (strip ([QT] @ '';'') x) (\<lambda>x. Some (Write t (k, Some v), x)))))
       (bind_opt (strip ('' SET h = delete(h, '' @ [QT]) x) (\<lambda>x. let (k, x) = cut QT x in
        bind_opt (strip ([QT] @ '');'') x) (\<lambda>x. Some (Write t (k, None), x)))))"

definition p_stmt :: "string \<Rightarrow> (stmt \<times> string) option" where
  "p_stmt x =
     or_else (bind_opt (strip ''BEGIN;'' x) (\<lambda>x. Some (Begin, x)))
     (or_else (bind_opt (strip ''COMMIT;'' x) (\<lambda>x. Some (Commit, x)))
     (or_else (p_select x) (or_else (p_exist x) (p_update x))))"

text \<open>The tables, by name; \<open>ref_hv\<close> looks only at names that need no quoting.\<close>

type_synonym ref_db = "string \<Rightarrow> (string \<rightharpoonup> string) option"

definition plain :: "string \<Rightarrow> bool" where
  "plain t \<longleftrightarrow> CHR '' '' \<notin> set t \<and> CHR '';'' \<notin> set t"

definition ref_hv :: "ref_db \<Rightarrow> string \<Rightarrow> (string \<rightharpoonup> string) option" where
  "ref_hv d t = (if plain t then d t else None)"

definition tuples :: "string \<Rightarrow> pg_result" where
  "tuples v = \<lparr>res_status = PGRES_TUPLES_OK, res_rows = [[v]]\<rparr>"

definition done_ok :: pg_result where
  "done_ok = \<lparr>res_status = PGRES_COMMAND_OK, res_rows = []\<rparr>"

definition failed :: pg_result where
  "failed = \<lparr>res_status = PGRES_OTHER, res_rows = []\<rparr>"

fun ref_stmt :: "stmt \<Rightarrow> ref_db \<Rightarrow> (pg_result \<times> ref_db) option" where
  "ref_stmt Begin d = Some (done_ok, d)"
| "ref_stmt Commit d = Some (done_ok, d)"
| "ref_stmt (Select t k) d =
     map_option (\<lambda>m. (tuples (case m k of None \<Rightarrow> [] | Some v \<Rightarrow> v), d)) (d t)"
| "ref_stmt (Exist t k) d = map_option (\<lambda>m. (tuples (if m k = None then ''f'' else ''t''), d)) (d t)"
| "ref_stmt (Write t w) d = map_option (\<lambda>m. (done_ok, d(t \<mapsto> apply_write w m))) (d t)"

text \<open>A script: its statements in order, the result of the last one; a failure undoes all of it.\<close>

fun ref_script :: "nat \<Rightarrow> pg_result \<Rightarrow> string \<Rightarrow> ref_db \<Rightarrow> (pg_result \<times> ref_db) option" where
  "ref_script n r [] d = Some (r, d)"
| "ref_script 0 r x d = None"
| "ref_script (Suc n) r x d =
     bind_opt (p_stmt x) (\<lambda>(st, x). bind_opt (ref_stmt st d) (\<lambda>(r, d). ref_script n r x d))"

definition ref_exec :: "ref_db \<Rightarrow> string \<Rightarrow> pg_result \<times> ref_db" where
  "ref_exec d x = (case ref_script (length x) done_ok x d of None \<Rightarrow> (failed, d) | Some out \<Rightarrow> out)"

definition ref_libpq :: "ref_db libpq" where
  "ref_libpq = \<lparr>pq_exec = ref_exec, pq_connect = (\<lambda>d c. True), os_login = Ptr ''postgres''\<rparr>"

section \<open>The statements parse to what they say\<close>

lemma sql_safe_QT: "sql_safe x \<Longrightarrow> QT \<notin> set x"
  by (auto simp: sql_safe_def)

lemma p_stmt_select:
  "sql_safe k \<Longrightarrow> plain t \<Longrightarrow> p_stmt (sql_select k t @ x) = Some (Select t k, x)"
  using cut_append [of QT k "''] FROM '' @ t @ '';'' @ x"] cut_append [of "CHR '';''" t x]
  by (simp add: p_stmt_def p_select_def strip_def sql_select_def sql_safe_QT plain_def)

lemma p_stmt_exist:
  "sql_safe k \<Longrightarrow> plain t \<Longrightarrow> p_stmt (sql_exist k t @ x) = Some (Exist t k, x)"
  using cut_append [of QT k "'') FROM '' @ t @ '';'' @ x"] cut_append [of "CHR '';''" t x]
  by (simp add: p_stmt_def p_select_def p_exist_def strip_def sql_exist_def sql_safe_QT plain_def)

lemma p_stmt_write:
  assumes "safe_write w" and "plain t"
  shows "p_stmt (write_sql t w @ x) = Some (Write t w, x)"
proof (cases w)
  case (Pair k c)
  then have k: "QT \<notin> set k" and t: "CHR '' '' \<notin> set t"
    using assms by (auto simp: safe_write_def sql_safe_QT plain_def)
  show ?thesis
  proof (cases c)
    case None
    then show ?thesis
      using Pair k t cut_append [of QT k "'');'' @ x"]
        cut_append [of "CHR '' ''" t "''SET h = delete(h, '' @ [QT] @ k @ [QT] @ '');'' @ x"]
      by (simp add: p_stmt_def p_select_def p_exist_def p_update_def strip_def write_sql_def sql_delete_def)
  next
    case (Some v)
    then have "QT \<notin> set v" using assms Pair by (auto simp: safe_write_def sql_safe_QT)
    then show ?thesis
      using Pair Some k t cut_append [of QT k "'']='' @ [QT] @ v @ [QT] @ '';'' @ x"]
        cut_append [of QT v "'';'' @ x"]
        cut_append [of "CHR '' ''" t "''SET h['' @ [QT] @ k @ [QT] @ '']='' @ [QT] @ v @ [QT] @ '';'' @ x"]
      by (simp add: p_stmt_def p_select_def p_exist_def p_update_def strip_def write_sql_def sql_update_def)
  qed
qed

section \<open>The server satisfies the laws\<close>

lemma sql_nonempty: "sql_select k t \<noteq> []" "sql_exist k t \<noteq> []" "write_sql t w \<noteq> []"
  by (simp_all add: sql_select_def sql_exist_def write_sql_def sql_update_def sql_delete_def
      split: option.splits)

lemma ref_script_step:
  assumes "p_stmt x = Some (st, y)" and "x \<noteq> []"
  shows "ref_script (Suc n) r x d = bind_opt (ref_stmt st d) (\<lambda>(r, d). ref_script n r y d)"
  using assms by (cases x) simp_all

lemma ref_exec_one:
  assumes "p_stmt (x @ []) = Some (st, [])" and "x \<noteq> []" and "ref_stmt st d = Some (r, d')"
  shows "ref_exec d x = (r, d')"
proof -
  have "ref_script (Suc (length (tl x))) done_ok x d = Some (r, d')"
    using assms ref_script_step [of x st "[]" "length (tl x)" done_ok d] by simp
  moreover have "Suc (length (tl x)) = length x" using assms(2) by (cases x) auto
  ultimately show ?thesis by (simp add: ref_exec_def)
qed

lemma ref_script_writes:
  assumes "\<forall>w \<in> set ws. safe_write w" and "plain t" and "d t = Some m"
  shows "\<exists>r'. ref_script (length ws + j) r (concat (map (write_sql t) ws) @ x) d =
    ref_script j r' x (d(t \<mapsto> fold apply_write ws m))"
  using assms
proof (induction ws arbitrary: d m r)
  case Nil
  then have "d(t \<mapsto> m) = d" by auto
  then show ?case by auto
next
  case (Cons w ws)
  let ?y = "concat (map (write_sql t) ws) @ x"
  have "p_stmt (write_sql t w @ ?y) = Some (Write t w, ?y)"
    using Cons.prems by (intro p_stmt_write) auto
  then have "ref_script (length (w # ws) + j) r (concat (map (write_sql t) (w # ws)) @ x) d =
      ref_script (length ws + j) done_ok ?y (d(t \<mapsto> apply_write w m))"
    using ref_script_step [of "write_sql t w @ ?y" "Write t w" ?y "length ws + j" r d] Cons.prems(3)
      sql_nonempty by simp
  moreover obtain r' where "ref_script (length ws + j) done_ok ?y (d(t \<mapsto> apply_write w m)) =
      ref_script j r' x ((d(t \<mapsto> apply_write w m))(t \<mapsto> fold apply_write ws (apply_write w m)))"
    using Cons.IH [of "d(t \<mapsto> apply_write w m)" "apply_write w m" done_ok] Cons.prems
    by (metis fun_upd_same list.set_intros(2))
  ultimately show ?case by (metis fold_simps(2) fun_upd_upd)
qed

lemma length_writes: "length ws \<le> length (concat (map (write_sql t) ws))"
proof (induction ws)
  case (Cons w ws)
  then show ?case using sql_nonempty(3) [of t w] by (cases "write_sql t w") auto
qed simp

lemma ref_exec_transaction:
  assumes "\<forall>w \<in> set ws. safe_write w" and "plain t" and "d t = Some m"
  shows "ref_exec d (transaction_sql t ws) = (done_ok, d(t \<mapsto> fold apply_write ws m))"
proof -
  let ?w = "concat (map (write_sql t) ws)"
  obtain j where j: "length (transaction_sql t ws) = Suc (length ws + Suc j)"
    using length_writes [of ws t] that [of "length ?w - length ws + 11"]
    by (simp add: transaction_sql_def)
  have b: "p_stmt (transaction_sql t ws) = Some (Begin, ?w @ ''COMMIT;'')"
    by (simp add: p_stmt_def transaction_sql_def strip_def)
  obtain r' where "ref_script (length ws + Suc j) done_ok (?w @ ''COMMIT;'') d =
      ref_script (Suc j) r' ''COMMIT;'' (d(t \<mapsto> fold apply_write ws m))"
    using ref_script_writes [of ws t d m, OF assms] by metis
  moreover have "p_stmt ''COMMIT;'' = Some (Commit, [])"
    by (simp add: p_stmt_def strip_def)
  ultimately have "ref_script (length ws + Suc j) done_ok (?w @ ''COMMIT;'') d =
      Some (done_ok, d(t \<mapsto> fold apply_write ws m))"
    using ref_script_step [of "''COMMIT;''" Commit "[]" j r'] by simp
  then have "ref_script (length (transaction_sql t ws)) done_ok (transaction_sql t ws) d =
      Some (done_ok, d(t \<mapsto> fold apply_write ws m))"
    unfolding j using ref_script_step [OF b, of "length ws + Suc j" done_ok d]
    by (simp add: transaction_sql_def)
  then show ?thesis by (simp add: ref_exec_def)
qed

lemma ref_exec_select:
  "sql_safe k \<Longrightarrow> plain t \<Longrightarrow> d t = Some m \<Longrightarrow>
   ref_exec d (sql_select k t) = (tuples (case m k of None \<Rightarrow> [] | Some v \<Rightarrow> v), d)"
  by (rule ref_exec_one [where st = "Select t k"]) (simp_all only: p_stmt_select sql_nonempty, simp_all)

lemma ref_exec_exist:
  "sql_safe k \<Longrightarrow> plain t \<Longrightarrow> d t = Some m \<Longrightarrow>
   ref_exec d (sql_exist k t) = (tuples (if m k = None then ''f'' else ''t''), d)"
  by (rule ref_exec_one [where st = "Exist t k"]) (simp_all only: p_stmt_exist sql_nonempty, simp_all)

lemma ref_exec_write:
  "safe_write w \<Longrightarrow> plain t \<Longrightarrow> d t = Some m \<Longrightarrow>
   ref_exec d (write_sql t w) = (done_ok, d(t \<mapsto> apply_write w m))"
  by (rule ref_exec_one [where st = "Write t w"]) (simp_all only: p_stmt_write sql_nonempty, simp_all)

lemma ref_hv_upd: "plain t \<Longrightarrow> ref_hv (d(t \<mapsto> m)) = (ref_hv d)(t \<mapsto> m)"
  by (auto simp: ref_hv_def fun_eq_iff)

lemma ref_libpq_laws: "hstore_laws ref_libpq ref_hv"
  unfolding hstore_laws_def
proof (intro allI impI)
  fix d t m assume "ref_hv d t = Some m"
  then have t: "plain t" "d t = Some m" by (auto simp: ref_hv_def split: if_splits)
  show "(\<forall>k. sql_safe k \<longrightarrow>
        (\<exists>d'. pq_exec ref_libpq d (sql_select k t) =
                (\<lparr>res_status = PGRES_TUPLES_OK,
                  res_rows = [[case m k of None \<Rightarrow> [] | Some v \<Rightarrow> v]]\<rparr>, d') \<and> ref_hv d' = ref_hv d) \<and>
        (\<exists>d'. pq_exec ref_libpq d (sql_exist k t) =
                (\<lparr>res_status = PGRES_TUPLES_OK,
                  res_rows = [[if m k = None then ''f'' else ''t'']]\<rparr>, d') \<and> ref_hv d' = ref_hv d)) \<and>
     (\<forall>w. safe_write w \<longrightarrow>
        (\<exists>d' rows. pq_exec ref_libpq d (write_sql t w) =
                (\<lparr>res_status = PGRES_COMMAND_OK, res_rows = rows\<rparr>, d') \<and>
              ref_hv d' = (ref_hv d)(t \<mapsto> apply_write w m))) \<and>
     (\<forall>ws. (\<forall>w \<in> set ws. safe_write w) \<longrightarrow>
        (\<exists>d' rows. pq_exec ref_libpq d (transaction_sql t ws) =
                (\<lparr>res_status = PGRES_COMMAND_OK, res_rows = rows\<rparr>, d') \<and>
              ref_hv d' = (ref_hv d)(t \<mapsto> fold apply_write ws m)))"
    using t ref_exec_select [of _ t d m] ref_exec_exist [of _ t d m] ref_exec_write [of _ t d m]
      ref_exec_transaction [of _ t d m]
    by (auto simp: ref_libpq_def tuples_def done_ok_def ref_hv_upd)
qed

end
