(* ===== verification/Reference_Catalogue.thy ===== *)
theory Reference_Catalogue
  imports Reference_Backends Configure_Proxy
begin

text \<open>
  The database server of \<open>Reference_Backends\<close> with a catalogue: it also executes the statements of the
  start (the list of tables, CREATE TABLE, the first INSERT).  It shows that \<open>schema_laws\<close> and
  \<open>hstore_laws\<close> can hold together, and a concrete start runs on it.
\<close>

type_synonym cat_db = "string list \<times> ref_db"

definition cat_rest :: "string \<Rightarrow> cat_db \<Rightarrow> pg_result \<times> cat_db" where
  "cat_rest x db =
     (if x = sql_get_tables then (\<lparr>res_status = PGRES_TUPLES_OK, res_rows = map (\<lambda>t. [t]) (fst db)\<rparr>, db)
      else
        case strip ''CREATE TABLE '' x of
          Some y \<Rightarrow>
            (let (t, z) = cut (CHR '' '') y in
             if z = '' (h hstore);'' \<and> t \<notin> set (fst db) then (done_ok, (fst db @ [t], snd db)) else (failed, db))
        | None \<Rightarrow>
            (case strip ''INSERT INTO '' x of
               Some y \<Rightarrow>
                 (let (t, z) = cut (CHR '' '') y in
                  if z = '' VALUES ('' @ [QT, QT] @ '');'' then (done_ok, (fst db, (snd db)(t \<mapsto> Map.empty)))
                  else (failed, db))
             | None \<Rightarrow> (failed, db)))"

definition cat_exec :: "cat_db \<Rightarrow> string \<Rightarrow> pg_result \<times> cat_db" where
  "cat_exec db x =
     (case ref_script (length x) done_ok x (snd db) of
        Some (r, d) \<Rightarrow> (r, (fst db, d))
      | None \<Rightarrow> cat_rest x db)"

definition cat_libpq :: "cat_db libpq" where
  "cat_libpq = \<lparr>pq_exec = cat_exec, pq_connect = (\<lambda>d c. True), os_login = Ptr ''postgres''\<rparr>"

definition cat_hv :: "cat_db \<Rightarrow> string \<Rightarrow> (string \<rightharpoonup> string) option" where
  "cat_hv db = ref_hv (snd db)"

lemma cat_exec_ref:
  assumes "pq_exec ref_libpq (snd db) x = (r, d)" and "res_status r \<noteq> PGRES_OTHER"
  shows "pq_exec cat_libpq db x = (r, (fst db, d))"
  using assms by (auto simp: ref_libpq_def cat_libpq_def ref_exec_def cat_exec_def failed_def split: option.splits)

lemma cat_hstore_laws: "hstore_laws cat_libpq cat_hv"
  unfolding hstore_laws_def
proof (intro allI impI)
  fix db t m assume "cat_hv db t = Some m"
  then have m: "ref_hv (snd db) t = Some m" by (simp add: cat_hv_def)
  note S = hstore_select [OF ref_libpq_laws, OF m] and E = hstore_exist [OF ref_libpq_laws, OF m]
    and W = hstore_write [OF ref_libpq_laws, OF m] and T = hstore_transaction [OF ref_libpq_laws, OF m]
  have reads: "\<exists>d'. pq_exec cat_libpq db (sql_select k t) =
        (\<lparr>res_status = PGRES_TUPLES_OK, res_rows = [[case m k of None \<Rightarrow> [] | Some v \<Rightarrow> v]]\<rparr>, d') \<and> cat_hv d' = cat_hv db"
      "\<exists>d'. pq_exec cat_libpq db (sql_exist k t) =
        (\<lparr>res_status = PGRES_TUPLES_OK, res_rows = [[if m k = None then ''f'' else ''t'']]\<rparr>, d') \<and> cat_hv d' = cat_hv db"
    if safe: "sql_safe k" for k
  proof -
    obtain d1 where "pq_exec ref_libpq (snd db) (sql_select k t) =
        (\<lparr>res_status = PGRES_TUPLES_OK, res_rows = [[case m k of None \<Rightarrow> [] | Some v \<Rightarrow> v]]\<rparr>, d1)" "ref_hv d1 = ref_hv (snd db)"
      using S [OF safe] by blast
    then show "\<exists>d'. pq_exec cat_libpq db (sql_select k t) =
        (\<lparr>res_status = PGRES_TUPLES_OK, res_rows = [[case m k of None \<Rightarrow> [] | Some v \<Rightarrow> v]]\<rparr>, d') \<and> cat_hv d' = cat_hv db"
      using cat_exec_ref [of db "sql_select k t"] by (auto simp: cat_hv_def)
    obtain d2 where "pq_exec ref_libpq (snd db) (sql_exist k t) =
        (\<lparr>res_status = PGRES_TUPLES_OK, res_rows = [[if m k = None then ''f'' else ''t'']]\<rparr>, d2)" "ref_hv d2 = ref_hv (snd db)"
      using E [OF safe] by blast
    then show "\<exists>d'. pq_exec cat_libpq db (sql_exist k t) =
        (\<lparr>res_status = PGRES_TUPLES_OK, res_rows = [[if m k = None then ''f'' else ''t'']]\<rparr>, d') \<and> cat_hv d' = cat_hv db"
      using cat_exec_ref [of db "sql_exist k t"] by (auto simp: cat_hv_def)
  qed
  have writes: "\<exists>d' rows. pq_exec cat_libpq db x = (\<lparr>res_status = PGRES_COMMAND_OK, res_rows = rows\<rparr>, d') \<and>
      cat_hv d' = (cat_hv db)(t \<mapsto> y)"
    if run: "\<exists>d' rows. pq_exec ref_libpq (snd db) x = (\<lparr>res_status = PGRES_COMMAND_OK, res_rows = rows\<rparr>, d') \<and>
      ref_hv d' = (ref_hv (snd db))(t \<mapsto> y)" for x y
    using run cat_exec_ref [of db x] by (fastforce simp: cat_hv_def)
  show "(\<forall>k. sql_safe k \<longrightarrow>
        (\<exists>d'. pq_exec cat_libpq db (sql_select k t) =
                (\<lparr>res_status = PGRES_TUPLES_OK,
                  res_rows = [[case m k of None \<Rightarrow> [] | Some v \<Rightarrow> v]]\<rparr>, d') \<and> cat_hv d' = cat_hv db) \<and>
        (\<exists>d'. pq_exec cat_libpq db (sql_exist k t) =
                (\<lparr>res_status = PGRES_TUPLES_OK,
                  res_rows = [[if m k = None then ''f'' else ''t'']]\<rparr>, d') \<and> cat_hv d' = cat_hv db)) \<and>
     (\<forall>w. safe_write w \<longrightarrow>
        (\<exists>d' rows. pq_exec cat_libpq db (write_sql t w) =
                (\<lparr>res_status = PGRES_COMMAND_OK, res_rows = rows\<rparr>, d') \<and>
              cat_hv d' = (cat_hv db)(t \<mapsto> apply_write w m))) \<and>
     (\<forall>ws. (\<forall>w \<in> set ws. safe_write w) \<longrightarrow>
        (\<exists>d' rows. pq_exec cat_libpq db (transaction_sql t ws) =
                (\<lparr>res_status = PGRES_COMMAND_OK, res_rows = rows\<rparr>, d') \<and>
              cat_hv d' = (cat_hv db)(t \<mapsto> fold apply_write ws m)))"
    using reads writes [OF W] writes [OF T] by blast
qed

lemma plain_table_name: "plain (table_name i)"
  using dec_digits [of "CHR '' ''" i] dec_digits [of "CHR '';''" i]
  by (auto simp: plain_def table_name_def is_digit_def)

lemma no_statement:
  "p_stmt sql_get_tables = None" "p_stmt (sql_create_table t) = None" "p_stmt (sql_create_hstore t) = None"
  by (simp_all add: p_stmt_def p_select_def p_exist_def p_update_def strip_def sql_get_tables_def
      sql_create_table_def sql_create_hstore_def)

lemma ref_script_none: "p_stmt x = None \<Longrightarrow> x \<noteq> [] \<Longrightarrow> ref_script (length x) r x d = None"
  by (cases x) simp_all

lemma cat_schema_laws: "schema_laws cat_libpq cat_hv fst"
  unfolding schema_laws_def
proof (intro conjI allI impI)
  fix db :: cat_db
  have "ref_script (length sql_get_tables) done_ok sql_get_tables (snd db) = None"
    by (rule ref_script_none [OF no_statement(1)]) (simp add: sql_get_tables_def)
  then show "\<exists>d'. pq_exec cat_libpq db sql_get_tables =
      (\<lparr>res_status = PGRES_TUPLES_OK, res_rows = map (\<lambda>t. [t]) (fst db)\<rparr>, d') \<and> cat_hv d' = cat_hv db \<and> fst d' = fst db"
    by (simp add: cat_libpq_def cat_exec_def cat_rest_def)
next
  fix db :: cat_db and i
  let ?t = "table_name i"
  assume new: "?t \<notin> set (fst db)"
  have sp: "CHR '' '' \<notin> set ?t" using plain_table_name [of i] by (simp add: plain_def)
  let ?db1 = "(fst db @ [?t], snd db)"
  let ?db2 = "(fst db @ [?t], (snd db)(?t \<mapsto> Map.empty))"
  have "ref_script (length (sql_create_table ?t)) done_ok (sql_create_table ?t) (snd db) = None"
    by (rule ref_script_none [OF no_statement(2)]) (simp add: sql_create_table_def)
  then have c: "pq_exec cat_libpq db (sql_create_table ?t) = (done_ok, ?db1)"
    using new cut_append [OF sp, of "''(h hstore);''"]
    by (simp add: cat_libpq_def cat_exec_def cat_rest_def sql_create_table_def sql_get_tables_def strip_def)
  have "ref_script (length (sql_create_hstore ?t)) done_ok (sql_create_hstore ?t) (snd db) = None"
    by (rule ref_script_none [OF no_statement(3)]) (simp add: sql_create_hstore_def)
  then have h: "pq_exec cat_libpq ?db1 (sql_create_hstore ?t) = (done_ok, ?db2)"
    using cut_append [OF sp, of "''VALUES ('' @ [QT, QT] @ '');''"]
    by (simp add: cat_libpq_def cat_exec_def cat_rest_def sql_create_hstore_def sql_get_tables_def strip_def)
  have "cat_hv ?db2 = (cat_hv db)(?t \<mapsto> Map.empty)"
    using ref_hv_upd [OF plain_table_name] by (simp add: cat_hv_def)
  then show "\<exists>r1 d1 r2 d2.
      pq_exec cat_libpq db (sql_create_table ?t) = (\<lparr>res_status = PGRES_COMMAND_OK, res_rows = r1\<rparr>, d1) \<and>
      pq_exec cat_libpq d1 (sql_create_hstore ?t) = (\<lparr>res_status = PGRES_COMMAND_OK, res_rows = r2\<rparr>, d2) \<and>
      cat_hv d2 = (cat_hv db)(?t \<mapsto> Map.empty) \<and> set (fst d2) = insert ?t (set (fst db))"
    using c h by (auto simp: done_ok_def)
qed

lemma cat_reachable: "int (length (fst db)) < 2 ^ 59 \<Longrightarrow> db_reachable cat_libpq fst db"
  by (simp add: db_reachable_def cat_libpq_def strlen_def)

end
