(* ===== verification/Demo_World.thy ===== *)
theory Demo_World
  imports Startup Reference_Catalogue
begin

text \<open>
  Concrete states on the reference backends: a worker that has just been loaded, and one that serves
  an idle client over an empty table.  The applications of the theorems to concrete inputs use them.
\<close>

type_synonym demo_state = "(ref_table, cat_db) proxy_run"

text \<open>Before \<^verbatim>\<open>proxy_start_work\<close>: the static variables are zero, and the server has no table yet.\<close>

definition fresh_worker :: demo_state where
  "fresh_worker = \<lparr>error_returns = False, mallocs = [], config = DEFAULT_CONFIG, proxy_configure = NULL,
     hashes = NULL, count_hash_table = 0, conn = NULL, res = NULL, connected = False, transaction = NULL,
     cur_position = 0, full_transaction_size = 0, server = ([], Map.empty), logger_op = NULL, op_nodes = [],
     clients = [], accept_watch = None, timer_watch = None\<rparr>"

text \<open>Serving, in regime \<open>R\<close>; the cache entry of one key can be preset.\<close>

definition idle_client :: client where
  "idle_client = \<lparr>io_fd = 7, io_data = Ptr new_data, reader_on = True, writer_on = False, fd_open = True\<rparr>"

definition demo_with :: "ref_table \<Rightarrow> dump_status \<Rightarrow> demo_state" where
  "demo_with h R = \<lparr>error_returns = False, mallocs = [], config = DEFAULT_CONFIG\<lparr>caching_regime := R\<rparr>,
     proxy_configure = Ptr \<lparr>cur_table_name = cells ''redis_0'' @ [Some NUL], cur_table_num = 0, dump_time = 1\<rparr>,
     hashes = Ptr [Some (Ptr h)], count_hash_table = 1, conn = Ptr (), res = NULL, connected = True,
     transaction = NULL, cur_position = 0, full_transaction_size = 0,
     server = ([''redis_0''], [''redis_0'' \<mapsto> Map.empty]),
     logger_op = Ptr \<lparr>cur_op = NULL, first_op = NULL, sum_size_operation = 0, count_operation = 0\<rparr>, op_nodes = [],
     clients = [idle_client], accept_watch = Some 3, timer_watch = None\<rparr>"

abbreviation demo :: "dump_status \<Rightarrow> demo_state" where
  "demo \<equiv> demo_with Map.empty"

lemma demo_fields [simp]:
  "error_returns (demo_with h R) = False" "mallocs (demo_with h R) = []" "caching_regime (config (demo_with h R)) = R"
  "hashes (demo_with h R) = Ptr [Some (Ptr h)]" "conn (demo_with h R) = Ptr ()" "connected (demo_with h R) = True"
  "server (demo_with h R) = ([''redis_0''], [''redis_0'' \<mapsto> Map.empty])" "op_nodes (demo_with h R) = []"
  "clients (demo_with h R) = [idle_client]" "transaction (demo_with h R) = NULL"
  by (simp_all add: demo_with_def)

lemma demo_ok [simp]: "mallocs_ok (demo_with h R)"
  by (simp add: mallocs_ok_def)

lemma demo_status: "status_ok ''redis_0'' 0 (demo_with h R)"
  by (simp add: status_ok_def demo_with_def)

lemma demo_table: "table_ok ''redis_0''"
  by (simp add: table_ok_def strlen_def)

lemma demo_db: "db_ok cat_hv ''redis_0'' (demo_with h R) Map.empty"
  by (simp add: db_ok_def cat_hv_def ref_hv_def plain_def)

lemma demo_log: "log_holds ''redis_0'' (demo_with h R) []"
  by (simp add: log_holds_def demo_with_def chain_ok_def cursor_at_def log_size_def)

lemma demo_find: "ref_find Map.empty k = None"
  by (simp add: ref_find_def)

lemma demo_cache: "cache_ok ref_dynahash 0 (demo R)" "cache_view ref_dynahash 0 (demo R) = (\<lambda>k. None)"
  by (auto simp: cache_ok_def table_at_def entries_ok_def cache_view_def table_view_def fun_eq_iff
      ref_dynahash_def demo_find)

lemma demo_service: "service ref_dynahash cat_hv ''redis_0'' 0 R (demo R) Map.empty Map.empty"
proof -
  have "log_covers ''redis_0'' (demo R) Map.empty Map.empty"
    unfolding log_covers_def using demo_log by (intro exI [of _ "[]"]) simp
  then show ?thesis
    by (auto simp: service_def demo_status demo_db demo_cache regime_view_def overlay_def fun_eq_iff)
qed

lemma demo_pg_ok: "pg_ok ref_dynahash cat_libpq cat_hv ''redis_0'' 0 R (demo R)"
  unfolding pg_ok_def using ref_dynahash_laws cat_hstore_laws demo_table demo_service by blast

lemma demo_view: "pg_view ref_dynahash cat_hv ''redis_0'' 0 R (demo R) = Map.empty"
  using service_views(1) [OF demo_service] .

lemma demo_client: "client_holds idle_client
    \<lparr>to_come = reqs, stream = concat (map resp_request reqs), outbox = []\<rparr>"
  unfolding idle_client_def by (rule new_client_holds)

lemma demo_sim: "\<forall>q \<in> set reqs. request_ok ''redis_0'' R q \<Longrightarrow>
    sim ref_dynahash cat_hv ''redis_0'' 0 R (demo R)
      (Map.empty, [\<lparr>to_come = reqs, stream = concat (map resp_request reqs), outbox = []\<rparr>])"
  using demo_service demo_client by (auto simp: sim_def)

lemma demo_key: "key_ok t ''k''"
  by (simp add: key_ok_def sql_safe_def strlen_def)

lemma demo_value: "storable R ''k'' ''v''"
  by (simp add: storable_def sql_safe_def strlen_def cache_value_def)

lemmas demo_laws = ref_dynahash_laws cat_hstore_laws demo_table

text \<open>A log with \<open>n\<close> equal operations in it.\<close>

definition full_log :: "nat \<Rightarrow> demo_state" where
  "full_log n = (demo DEFFER_DUMP)\<lparr>
     logger_op := Ptr \<lparr>cur_op = cursor_at n n, first_op = cursor_at 0 n,
       sum_size_operation = log_size ''redis_0'' (replicate n (''k'', Some ''v'')), count_operation = int n\<rparr>,
     op_nodes := map (\<lambda>i. Some \<lparr>op_name = SET, op_key = cells ''k'' @ Some NUL # replicate 98 None,
       op_value = cells ''v'' @ Some NUL # replicate 97 None, key_size = 1, value_size = 1,
       next_op = link_after i n\<rparr>) [0..<n]\<rparr>"

lemma full_log_holds: "log_holds ''redis_0'' (full_log n) (replicate n (''k'', Some ''v''))"
  by (simp add: log_holds_def full_log_def chain_ok_def node_holds_def write_op_def strlen_def)

text \<open>A client with a reply of seven bytes to be written.\<close>

definition pong_client :: client where
  "pong_client = idle_client\<lparr>io_data := Ptr (new_data\<lparr>write_data :=
     \<lparr>answer = Ptr (cells (''+PONG'' @ CRLF)), size_answer = 7\<rparr>\<rparr>), writer_on := True\<rparr>"

lemma pong_holds: "client_holds pong_client \<lparr>to_come = [], stream = [], outbox = ''+PONG'' @ CRLF\<rparr>"
  by (simp add: client_holds_def pong_client_def idle_client_def new_data_def fresh_buffer_def expects_def
      at_boundary_def idle_def queued_def)

text \<open>A small conversation.\<close>

definition demo_requests :: "string list list" where
  "demo_requests = [[''SET'', ''k'', ''v''], [''get'', ''k''], [''DEL'', ''k'', ''x'']]"

lemma demo_requests_ok: "\<forall>q \<in> set demo_requests. request_ok ''redis_0'' R q"
  by (simp add: demo_requests_def request_ok_def good_args_def command_ok_def key_ok_def storable_def
      sql_safe_def strlen_def cache_value_def big_char_def)

end
