(* ===== verification/Resp_Replies.thy ===== *)
theory Resp_Replies
  imports Serving
begin

text \<open>
  The client's side of the replies: a RESP decoder, which is not part of the program, and the proof
  that it reads the proxy's output back, one reply for each request, whatever the values contain.
\<close>

section \<open>A decoder of RESP replies\<close>

fun split_line :: "string \<Rightarrow> (string \<times> string) option" where
  "split_line [] = None"
| "split_line (c # cs) =
     (if c = CR then (case cs of d # rest \<Rightarrow> if d = LF then Some ([], rest) else None | [] \<Rightarrow> None)
      else map_option (\<lambda>(l, rest). (c # l, rest)) (split_line cs))"

definition read_number :: "string \<Rightarrow> nat option" where
  "read_number l = (if l \<noteq> [] \<and> list_all is_digit l then Some (nat (num_fold 0 l)) else None)"

definition resp_decode :: "string \<Rightarrow> (resp \<times> string) option" where
  "resp_decode x =
     (case x of [] \<Rightarrow> None
      | c # y \<Rightarrow>
        (case split_line y of None \<Rightarrow> None
         | Some (l, rest) \<Rightarrow>
             if c = CHR ''+'' then Some (Simple_String l, rest)
             else if c = CHR ''-'' then
               (if take 4 l = ''ERR '' then Some (Error_Reply (drop 4 l), rest) else None)
             else if c = CHR '':'' then map_option (\<lambda>n. (Integer n, rest)) (read_number l)
             else if c = CHR ''$'' then
               (if l = ''-1'' then Some (Nil_Bulk, rest)
                else case read_number l of None \<Rightarrow> None
                  | Some n \<Rightarrow> if take 2 (drop n rest) = CRLF
                      then Some (Bulk_String (take n rest), drop (n + 2) rest) else None)
             else None))"

fun resp_decode_all :: "nat \<Rightarrow> string \<Rightarrow> (resp list \<times> string) option" where
  "resp_decode_all 0 x = Some ([], x)"
| "resp_decode_all (Suc n) x =
     (case resp_decode x of None \<Rightarrow> None
      | Some (r, y) \<Rightarrow> map_option (\<lambda>(rs, z). (r # rs, z)) (resp_decode_all n y))"

text \<open>Only the text of simple strings and errors must be free of carriage returns.\<close>

fun resp_clean :: "resp \<Rightarrow> bool" where
  "resp_clean (Simple_String msg) = (CR \<notin> set msg)"
| "resp_clean (Error_Reply msg) = (CR \<notin> set msg)"
| "resp_clean r = True"

lemma split_line_append: "CR \<notin> set l \<Longrightarrow> split_line (l @ CR # LF # rest) = Some (l, rest)"
  by (induction l) auto

lemma CR_notin_dec [simp]: "CR \<notin> set (dec n)"
  using dec_digits [of CR n] by (auto simp: is_digit_def)

lemma read_number_dec [simp]: "read_number (dec n) = Some n"
  using dec_digits by (auto simp: read_number_def list_all_iff num_fold_dec)

lemma dec_not_minus: "dec n \<noteq> ''-1''"
  using dec_digits [of "CHR ''-''" n] by (auto simp: is_digit_def)

lemma resp_decode_encode: "resp_clean r \<Longrightarrow> resp_decode (resp_encode r @ rest) = Some (r, rest)"
proof (cases r)
  case (Error_Reply msg)
  moreover assume "resp_clean r"
  ultimately show ?thesis
    using split_line_append [of "''ERR '' @ msg" rest] by (simp add: resp_decode_def)
next
  case (Integer n)
  then show ?thesis using split_line_append [of "dec n" rest] by (simp add: resp_decode_def)
next
  case (Bulk_String v)
  then show ?thesis
    using split_line_append [of "dec (length v)" "v @ CR # LF # rest"] dec_not_minus [of "length v"]
    by (simp add: resp_decode_def)
next
  case Nil_Bulk
  then show ?thesis using split_line_append [of "''-1''" rest] by (simp add: resp_decode_def)
qed (simp add: resp_decode_def split_line_append)

lemma resp_decode_all_encode:
  "\<forall>r \<in> set rs. resp_clean r \<Longrightarrow>
   resp_decode_all (length rs) (concat (map resp_encode rs) @ rest) = Some (rs, rest)"
  by (induction rs) (simp_all add: resp_decode_encode)

section \<open>One reply for each request\<close>

text \<open>The replies of a session, in order.\<close>

fun replies_to :: "string list list \<Rightarrow> (string \<rightharpoonup> string) \<Rightarrow> resp list" where
  "replies_to [] u = []"
| "replies_to (q # qs) u =
     (case command_spec (hd q) (tl q) u of None \<Rightarrow> [] | Some (r, u') \<Rightarrow> r # replies_to qs u')"

lemma session_replies: "fst (session qs u) = concat (map resp_encode (replies_to qs u))"
  by (induction qs arbitrary: u) (auto split: option.splits)

lemma command_spec_clean:
  assumes "command_spec cmd as u = Some (r, u')"
  shows "resp_clean r"
  using assms
  by (auto simp: command_spec_def get_answer_def Let_def split: if_splits list.splits option.splits prod.splits)

lemma replies_to_clean: "r \<in> set (replies_to qs u) \<Longrightarrow> resp_clean r"
  by (induction qs arbitrary: u) (auto split: option.splits dest: command_spec_clean command_spec_clean [OF sym])

lemma length_replies_to: "\<forall>q \<in> set qs. request_ok t R q \<Longrightarrow> length (replies_to qs u) = length qs"
proof (induction qs arbitrary: u)
  case (Cons q qs)
  then obtain r u' where "command_spec (hd q) (tl q) u = Some (r, u')"
    using command_spec_defined [of t R "hd q" "tl q" u] by (auto simp: request_ok_def)
  then show ?case using Cons by simp
qed simp

lemma session_decodes:
  assumes "\<forall>q \<in> set qs. request_ok t R q"
  shows "resp_decode_all (length qs) (fst (session qs u)) = Some (replies_to qs u, [])"
  using resp_decode_all_encode [of "replies_to qs u" "[]"] replies_to_clean length_replies_to [OF assms]
  by (simp add: session_replies)

end
