(* ===== verification/Component_Claims.thy ===== *)
theory Component_Claims
  imports Parser_Safety Demo_World Resp_Replies
begin

text \<open>
  The properties of the single components, each stated over the model's definitions, with an
  application to a concrete state where it has hypotheses.  The properties that span components are
  in \<open>Spec2Isabelle\<close>.
\<close>

section \<open>The parser\<close>

text \<open>C18: The loop of \<^verbatim>\<open>parse_cli_mes\<close> over the read buffer is the byte automaton run over the bytes in
  it: it stops at the same byte with the same connection state, and the bytes behind a completed
  request are moved to the front.\<close>

theorem parser_is_byte_automaton:
  assumes "holds d cs" and "cs \<noteq> []"
  shows "parse_cli_mes d s = map_ret finish_parse (feed cs d) s"
  using parse_cli_mes_feed [OF assms] .

lemma parser_is_byte_automaton_witness:
  "parse_cli_mes (receive ''*1'' example_conn) bare = map_ret finish_parse (feed ''*1'' (receive ''*1'' example_conn)) bare"
  by (rule parser_is_byte_automaton)
     (simp_all add: receive_holds fresh_buffer_def packet_def example_conn_def)

text \<open>C10: Memory safety of the parser on bytes that need not be a request: from a well-formed parsing state, and
  as long as no number overflows and no count or length is below one, \<^verbatim>\<open>parse_cli_mes\<close> returns without an
  error, in a well-formed state, with a smaller rest in a buffer of the same size; a request it reports as
  complete has every argument assigned.\<close>

theorem parser_keeps_its_invariant:
  assumes "holds d cs" and "cs \<noteq> []" and "parsing_ok d" and "mallocs_ok s" and "sane_bytes cs d s"
  shows "\<exists>d' s'. parse_cli_mes d s = (Ret d', s') \<and> parsing_ok d' \<and> mallocs_ok s' \<and> exit_status d' \<noteq> ERR \<and>
    length (read_buffer d') = length (read_buffer d) \<and> 0 \<le> cur_buffer_size d' \<and>
    cur_buffer_size d' < cur_buffer_size d \<and> (exit_status d' = ALL_READ \<longrightarrow> args_done d')"
  using parse_cli_mes_safe [OF assms] .

lemma parser_keeps_its_invariant_witness:
  "\<exists>d' s'. parse_cli_mes (receive (''GET*2'' @ CRLF @ ''x$1'' @ CRLF @ ''a'') example_conn) bare = (Ret d', s') \<and> parsing_ok d' \<and>
    mallocs_ok s' \<and> exit_status d' \<noteq> ERR \<and>
    length (read_buffer d') = length (read_buffer (receive (''GET*2'' @ CRLF @ ''x$1'' @ CRLF @ ''a'') example_conn)) \<and>
    0 \<le> cur_buffer_size d' \<and> cur_buffer_size d' < cur_buffer_size (receive (''GET*2'' @ CRLF @ ''x$1'' @ CRLF @ ''a'') example_conn) \<and>
    (exit_status d' = ALL_READ \<longrightarrow> args_done d')"
proof (rule parser_keeps_its_invariant)
  show "holds (receive (''GET*2'' @ CRLF @ ''x$1'' @ CRLF @ ''a'') example_conn) (''GET*2'' @ CRLF @ ''x$1'' @ CRLF @ ''a'')"
    by (rule receive_holds) (simp_all add: fresh_buffer_def packet_def example_conn_def)
  show "sane_bytes (''GET*2'' @ CRLF @ ''x$1'' @ CRLF @ ''a'') (receive (''GET*2'' @ CRLF @ ''x$1'' @ CRLF @ ''a'') example_conn) bare"
    by (simp add: sane_def receive_def example_conn_def parse_sym_def push_digit_def end_number_def run Let_def
        string_sym_def store_arg_def is_digit_def digit_val_def int_range_def number_read_def bare_def malloc_grants_def)
qed (simp_all add: parsing_ok_def receive_def example_conn_def bare_def mallocs_ok_def)

text \<open>C20: A negative length brings the worker down, with two packets from any client: the first, with a length
  of \<open>-n\<close>, is answered by nothing (no reply is queued, and nothing changes but this client's parsing state
  and the allocator) and leaves a null string buffer behind; whatever five or more bytes come next, the first
  packet's own bytes are parsed again and the null buffer is written.\<close>

theorem negative_length_crashes_the_worker:
  fixes s :: "('h, 'd, 'e) world_scheme"
  assumes "i < length (clients s)" and "io_data (clients s ! i) = Ptr d" and "fresh_buffer (read_data d)"
    and "at_boundary (read_data d)" and "2 \<le> n" and "int n < 2 ^ 31" and "mallocs_ok s"
    and "p = header 1 @ ''$-'' @ dec n @ CRLF" and "5 \<le> length q" and "length p + length q \<le> 200"
  shows "\<exists>r ms s1. on_read_cb D P i False (Some p) s = (Ret (), s1) \<and>
    s1 = s\<lparr>mallocs := ms, clients := (clients s)[i := (clients s ! i)\<lparr>io_data := Ptr (d\<lparr>read_data := r\<rparr>),
      writer_on := writer_on (clients s ! i) \<or> 0 < size_answer (write_data d)\<rparr>]\<rparr> \<and>
    fst (on_read_cb D P i False (Some q) s1) = Fault Null_Deref"
  using negative_length_crashes [OF assms] unfolding parsed_on_def .

lemma negative_length_crashes_the_worker_witness:
  "\<exists>r ms s1. on_read_cb ref_dynahash cat_libpq 0 False (Some (header 1 @ ''$-'' @ dec 5 @ CRLF)) (demo NO_CACHE) = (Ret (), s1) \<and>
    s1 = (demo NO_CACHE)\<lparr>mallocs := ms, clients := (clients (demo NO_CACHE))[0 := (clients (demo NO_CACHE) ! 0)\<lparr>
      io_data := Ptr (new_data\<lparr>read_data := r\<rparr>),
      writer_on := writer_on (clients (demo NO_CACHE) ! 0) \<or> 0 < size_answer (write_data new_data)\<rparr>]\<rparr> \<and>
    fst (on_read_cb ref_dynahash cat_libpq 0 False (Some ''hello'') s1) = Fault Null_Deref"
  by (rule negative_length_crashes_the_worker [where d = new_data and n = 5, OF _ _ _ _ _ _ _ refl])
     (simp_all add: idle_client_def new_data_def fresh_buffer_def at_boundary_def idle_def header_def dec.simps [of "Suc 0"] dec.simps [of 5])

section \<open>The cache\<close>

text \<open>C14: After any sequence of writes and deletions a look-up finds what the last write to its key
  left, and what was there before if there was none; a deletion is remembered as an empty result.\<close>

theorem cache_last_write_wins:
  assumes "dynahash_laws D" and "cache_ok D t s" and "\<forall>w \<in> set ws. write_ok w" and "cache_key k"
  shows "\<exists>r s'. bnd (cache_writes (\<lambda>k. set_hash_table D t (Ptr k)) ws) (\<lambda>_. check_hash_table D t k) s = (Ret r, s') \<and>
    cache_ok D t s' \<and>
    answers (case map_of (rev ws) k of None \<Rightarrow> cache_view D t s k | Some w \<Rightarrow> Some (written w)) r"
  using pg_cache.writes_then_check [of D t s ws k] assms by auto

lemma cache_last_write_wins_witness:
  "\<exists>r s'. bnd (cache_writes (\<lambda>k. set_hash_table ref_dynahash 0 (Ptr k)) [(''k'', Some ''v''), (''k'', None)])
      (\<lambda>_. check_hash_table ref_dynahash 0 ''k'') (demo GET_CACHE) = (Ret r, s') \<and> cache_ok ref_dynahash 0 s' \<and>
    answers (case map_of (rev [(''k'', Some ''v''), (''k'', None)]) ''k'' of
       None \<Rightarrow> cache_view ref_dynahash 0 (demo GET_CACHE) ''k'' | Some w \<Rightarrow> Some (written w)) r"
  by (rule cache_last_write_wins)
     (simp_all add: demo_laws demo_cache write_ok_def cache_key_def cache_value_def)

section \<open>The log\<close>

text \<open>C16: After the log is cleared it holds exactly the operations that are added from then on, in
  order, whatever nodes an earlier round left behind for reuse.\<close>

theorem log_after_clear:
  fixes s :: "('h, 'd, 'e) log_st_scheme"
  assumes "log_holds t s us" and "mallocs_ok s" and "status_ok t tn s" and "\<forall>w \<in> set ws. loggable w"
  shows "\<exists>s'. bnd clear_log (\<lambda>_. push_all log_write ws) s = (Ret (), s') \<and> log_holds t s' ws"
  using op_log.clear_push_all [of t s us tn ws] assms by auto

lemma log_after_clear_witness:
  "\<exists>s'. bnd clear_log (\<lambda>_. push_all log_write [(''k'', Some ''v''), (''x'', None)]) (demo DEFFER_DUMP) = (Ret (), s') \<and>
    log_holds ''redis_0'' s' [(''k'', Some ''v''), (''x'', None)]"
  by (rule log_after_clear [OF demo_log demo_ok demo_status]) (simp add: loggable_def strlen_def)

text \<open>C38: \<^verbatim>\<open>free_log\<close> walks the whole list, frees every node exactly once and never touches a freed one.\<close>

theorem free_log_frees_each_node_once:
  assumes "logger_op s = Ptr l" and "chain_ok (op_nodes s)" and "first_op l = cursor_at 0 (length (op_nodes s))"
  shows "free_log s = (Ret (), s\<lparr>op_nodes := replicate (length (op_nodes s)) None, logger_op := Dangling\<rparr>)"
proof -
  have "free_nodes (first_op l) (op_nodes s) = Ret (replicate (length (op_nodes s)) None)"
    using free_nodes_chain [OF assms(2), of 0] assms(3) by (cases "op_nodes s = []") (simp_all add: cursor_at_def)
  then show ?thesis using assms(1) by (simp add: free_log_def run del: free_nodes.simps)
qed

lemma free_log_frees_each_node_once_witness:
  "length (op_nodes (full_log 3)) = 3 \<and>
   free_log (full_log 3) = (Ret (), (full_log 3)\<lparr>op_nodes := replicate (length (op_nodes (full_log 3))) None,
     logger_op := Dangling\<rparr>)"
proof (rule conjI)
  show "free_log (full_log 3) = (Ret (), (full_log 3)\<lparr>op_nodes := replicate (length (op_nodes (full_log 3))) None,
      logger_op := Dangling\<rparr>)"
    by (rule free_log_frees_each_node_once
         [where l = "\<lparr>cur_op = cursor_at 3 3, first_op = cursor_at 0 3,
            sum_size_operation = log_size ''redis_0'' (replicate 3 (''k'', Some ''v'')), count_operation = 3\<rparr>"])
       (simp_all add: full_log_def chain_ok_def)
qed (simp add: full_log_def)

section \<open>The database requests\<close>

text \<open>C15: On a connected database whose table holds \<open>m\<close>, \<^verbatim>\<open>get_value\<close> answers \<open>m\<close> and changes nothing,
  \<^verbatim>\<open>set_value\<close> puts the value under the key, and \<^verbatim>\<open>del_value\<close> removes the key and says whether it was
  there; no other table changes.\<close>

theorem database_requests:
  assumes "hstore_laws P hv" and "db_ok hv t s m" and "sql_safe k" and "sql_safe v"
    and "strlen k + strlen t + strlen v < 2 ^ 30"
  shows "(\<exists>s'. get_value P t k out s = (Ret (get_reply (m k)), s') \<and> hv (server s') = hv (server s)) \<and>
    (\<exists>s'. set_value P t k v s = (Ret OK, s') \<and> hv (server s') = (hv (server s))(t \<mapsto> m(k \<mapsto> v))) \<and>
    (\<exists>s'. del_value P t k s = (Ret (if m k = None then NON else OK), s') \<and>
       hv (server s') = (hv (server s))(t \<mapsto> m(k := None)))"
proof -
  have len: "strlen k + strlen t < 2 ^ 30" using assms(5) strlen_nonneg [of v] by linarith
  obtain ms1 r1 d1 where g: "get_value P t k out s = (Ret (get_reply (m k)), s\<lparr>mallocs := ms1, res := r1, server := d1\<rparr>)"
      "hv d1 = hv (server s)" using get_value_spec [OF assms(1-3) len] by blast
  obtain ms2 r2 d2 where u: "set_value P t k v s = (Ret OK, s\<lparr>mallocs := ms2, res := r2, server := d2\<rparr>)"
      "hv d2 = (hv (server s))(t \<mapsto> m(k \<mapsto> v))" using set_value_spec [OF assms] by blast
  obtain ms3 r3 d3 where x: "del_value P t k s = (Ret (if m k = None then NON else OK), s\<lparr>mallocs := ms3, res := r3, server := d3\<rparr>)"
      "hv d3 = (hv (server s))(t \<mapsto> m(k := None))" using del_value_spec [OF assms(1-3) len] by blast
  show ?thesis using g u x by simp
qed

lemma database_requests_witness:
  "(\<exists>s'. get_value cat_libpq ''redis_0'' ''k'' (NULL, 0) (demo NO_CACHE) = (Ret (get_reply (Map.empty ''k'')), s') \<and>
      cat_hv (server s') = cat_hv (server (demo NO_CACHE))) \<and>
   (\<exists>s'. set_value cat_libpq ''redis_0'' ''k'' ''v'' (demo NO_CACHE) = (Ret OK, s') \<and>
      cat_hv (server s') = (cat_hv (server (demo NO_CACHE)))(''redis_0'' \<mapsto> Map.empty(''k'' \<mapsto> ''v''))) \<and>
   (\<exists>s'. del_value cat_libpq ''redis_0'' ''k'' (demo NO_CACHE) = (Ret (if Map.empty ''k'' = (None :: string option) then NON else OK), s') \<and>
      cat_hv (server s') = (cat_hv (server (demo NO_CACHE)))(''redis_0'' \<mapsto> Map.empty(''k'' := None)))"
  by (rule database_requests [OF cat_hstore_laws demo_db]) (simp_all add: sql_safe_def strlen_def)

text \<open>C32: \<^verbatim>\<open>do_transaction\<close> sends exactly the statements that were added between BEGIN and COMMIT, in one
  string, and reports success when the server accepts it.\<close>

theorem transaction_sends_what_was_added:
  assumes "tx_holds pre n s" and "n = length pre + 8" and "NUL \<notin> set pre" and "connected s" and "conn s = Ptr ()"
    and "pq_exec P (server s) (pre @ ''COMMIT;'') = (\<lparr>res_status = PGRES_COMMAND_OK, res_rows = rows\<rparr>, d)"
  shows "\<exists>s'. do_transaction P s = (Ret OK, s') \<and> server s' = d"
  using do_transaction_spec [OF assms] by simp

lemma transaction_sends_what_was_added_witness:
  "\<exists>s'. do_transaction cat_libpq ((demo DEFFER_DUMP)\<lparr>transaction := Ptr (cells (''BEGIN;'' @ replicate 8 NUL)),
      cur_position := 6, full_transaction_size := 14\<rparr>) = (Ret OK, s') \<and>
    server s' = ([''redis_0''], [''redis_0'' \<mapsto> Map.empty])"
proof (rule transaction_sends_what_was_added [where pre = "''BEGIN;''" and n = 14 and rows = "[]"])
  show "pq_exec cat_libpq (server ((demo DEFFER_DUMP)\<lparr>transaction := Ptr (cells (''BEGIN;'' @ replicate 8 NUL)),
      cur_position := 6, full_transaction_size := 14\<rparr>)) (''BEGIN;'' @ ''COMMIT;'') =
      (\<lparr>res_status = PGRES_COMMAND_OK, res_rows = []\<rparr>, ([''redis_0''], [''redis_0'' \<mapsto> Map.empty]))"
    by (simp add: cat_libpq_def cat_exec_def p_stmt_def strip_def done_ok_def numeral_eq_Suc)
qed (simp_all add: tx_holds_def)

section \<open>The replies\<close>

text \<open>C17: The converter turns an internal reply into RESP bytes that a client reads back as exactly that
  reply, whatever follows them: lengths and terminators are right for every payload.\<close>

theorem reply_reads_back:
  assumes "internal r out" and "resp_fits r" and "resp_clean r" and "mallocs_ok s"
  shows "\<exists>bytes s'. define_type_req (fst out) a (snd out) n s = (Ret (0, Ptr (cells bytes), int (length bytes)), s') \<and>
    resp_decode (bytes @ rest) = Some (r, rest)"
  using define_type_req_internal [OF assms(1,2,4)] resp_decode_encode [OF assms(3)] by blast

lemma reply_reads_back_witness:
  "\<exists>bytes s'. define_type_req (fst (Ptr (cells (CHR 0x03 # CRLF @ [NUL])), 4 :: int)) NULL
      (snd (Ptr (cells (CHR 0x03 # CRLF @ [NUL])), 4 :: int)) 0 (demo NO_CACHE) = (Ret (0, Ptr (cells bytes), int (length bytes)), s') \<and>
    resp_decode (bytes @ ''+OK'') = Some (Bulk_String CRLF, ''+OK'')"
  by (rule reply_reads_back) simp_all

section \<open>The configuration\<close>

text \<open>C33: A configuration file of one well-formed parameter per line is read as that list of parameters,
  each applied in order to the defaults; a failure to close the file is reported as an error at the end, with
  the parameters in place.\<close>

theorem config_file_is_read:
  assumes "\<forall>p \<in> set ps. param_ok p"
  shows "init_configuration (Some (config_file ps, close_ok)) s =
    (case set_parameters ps (s\<lparr>config := DEFAULT_CONFIG\<rparr>) of
       Some (Ret _, s') \<Rightarrow>
         Some (if close_ok then (Ret (), s') else ereport_ERROR ''Error on closing file redis.conf'' s')
     | r \<Rightarrow> r)"
  by (auto simp: init_configuration_def config_lines_file [OF assms] split: option.splits outcome.splits)

lemma config_file_is_read_witness:
  "init_configuration (Some (config_file [(''port'', ''7000''), (''cache-regime'', ''only-cache'')], False)) fresh_worker =
   (case set_parameters [(''port'', ''7000''), (''cache-regime'', ''only-cache'')] (fresh_worker\<lparr>config := DEFAULT_CONFIG\<rparr>) of
      Some (Ret _, s') \<Rightarrow>
        Some (if False then (Ret (), s') else ereport_ERROR ''Error on closing file redis.conf'' s')
    | r \<Rightarrow> r)"
  by (rule config_file_is_read) (simp add: param_ok_def is_space_def)

text \<open>C34: Every \<^verbatim>\<open>long\<close> that is printed in decimal is read back as itself.\<close>

theorem parse_int_reads_back:
  assumes "- (2 ^ 63) \<le> n" and "n < 2 ^ 63"
  shows "parse_int_from_value_correctly (dec_int n) = Some n"
  using parse_int_dec [OF assms] .

lemma parse_int_reads_back_witness: "parse_int_from_value_correctly (dec_int (-42)) = Some (-42)"
  by (rule parse_int_reads_back) simp_all

lemma not_space: "is_digit c \<Longrightarrow> \<not> is_space c" "\<not> is_space (CHR ''-'')" "\<not> is_space (CHR ''+'')"
  "\<not> is_digit (CHR ''-'')" "\<not> is_digit (CHR ''+'')"
  by (auto simp: is_space_def is_digit_def)

text \<open>White space, an optional sign, and digits whose value a \<^verbatim>\<open>long\<close> can hold.\<close>

definition numeral_text :: "string \<Rightarrow> int \<Rightarrow> bool" where
  "numeral_text v n \<longleftrightarrow> (\<exists>blanks sign ds. v = blanks @ sign @ ds \<and> list_all is_space blanks \<and>
     (sign = [] \<or> sign = ''+'' \<or> sign = ''-'') \<and> ds \<noteq> [] \<and> list_all is_digit ds \<and>
     n = (if sign = ''-'' then - num_fold 0 ds else num_fold 0 ds) \<and> - (2 ^ 63) \<le> n \<and> n < 2 ^ 63)"

lemma parse_numeral:
  assumes "numeral_text v n"
  shows "parse_int_from_value_correctly v = Some n"
proof -
  obtain blanks sign ds where v: "v = blanks @ sign @ ds" "list_all is_space blanks" "sign = [] \<or> sign = ''+'' \<or> sign = ''-''"
      "ds \<noteq> []" "list_all is_digit ds" "n = (if sign = ''-'' then - num_fold 0 ds else num_fold 0 ds)"
      "- (2 ^ 63) \<le> n" "n < 2 ^ 63" using assms by (auto simp: numeral_text_def)
  obtain c cs where ds: "ds = c # cs" using v(4) by (cases ds) auto
  have c: "is_digit c" "\<not> is_space c" "c \<noteq> CHR ''-''" "c \<noteq> CHR ''+''" using v(5) not_space by (auto simp: ds)
  have d: "takeWhile is_digit ds = ds" "dropWhile is_digit ds = []"
    using v(5) by (auto simp: list_all_iff takeWhile_eq_all_conv dropWhile_eq_Nil_conv)
  have "dropWhile is_space v = sign @ ds"
    using v(1-3) c not_space by (auto simp: list_all_iff dropWhile_append3 dropWhile_append ds)
  then have x: "cut_sign (dropWhile is_space v) = (sign = ''-'', ds)"
    using v(3) c by (auto simp: cut_sign_def ds)
  have "strtol v = (n, [], False)" using d v(4,6-8) by (auto simp: strtol_def x Let_def simp del: takeWhile_eq_all_conv dropWhile_eq_Nil_conv)
  then show ?thesis using v(1,4) by (simp add: parse_int_from_value_correctly_def)
qed

lemma numeral_parsed:
  assumes "parse_int_from_value_correctly v = Some n"
  shows "numeral_text v n"
proof -
  obtain neg x where x: "cut_sign (dropWhile is_space v) = (neg, x)" by fastforce
  let ?ds = "takeWhile is_digit x"
  let ?n = "if neg then - num_fold 0 ?ds else num_fold 0 ?ds"
  have st: "?ds \<noteq> []" "dropWhile is_digit x = []" "n = ?n" "- (2 ^ 63) \<le> ?n" "?n < 2 ^ 63"
    using assms by (auto simp: parse_int_from_value_correctly_def strtol_def x Let_def split: if_splits)
  then have ds: "?ds = x" by (metis append_Nil2 takeWhile_dropWhile_id)
  have "dropWhile is_space v = (if neg then ''-'' @ x else dropWhile is_space v) \<and>
      (\<exists>sign. dropWhile is_space v = sign @ x \<and> (sign = [] \<and> \<not> neg \<or> sign = ''+'' \<and> \<not> neg \<or> sign = ''-'' \<and> neg))"
    using x by (auto simp: cut_sign_def split: list.splits if_splits)
  then obtain sign where sign: "dropWhile is_space v = sign @ x"
      "sign = [] \<and> \<not> neg \<or> sign = ''+'' \<and> \<not> neg \<or> sign = ''-'' \<and> neg" by blast
  show ?thesis
    unfolding numeral_text_def
  proof (intro exI conjI)
    show "v = takeWhile is_space v @ sign @ x" using sign(1) by (metis takeWhile_dropWhile_id)
    show "list_all is_space (takeWhile is_space v)" by (auto simp: list_all_iff dest: set_takeWhileD)
    show "list_all is_digit x" using ds by (metis list_all_iff set_takeWhileD)
    show "n = (if sign = ''-'' then - num_fold 0 x else num_fold 0 x)" using st(3) sign(2) unfolding ds by auto
    show "- (2 ^ 63) \<le> n" "n < 2 ^ 63" using st by simp_all
  qed (use sign(2) st(1) ds in auto)
qed

text \<open>C35: \<^verbatim>\<open>parse_int_from_value_correctly\<close> accepts exactly the decimal numerals in the range of \<^verbatim>\<open>long\<close>, with
  white space before them and nothing behind, and returns their value; everything else is refused.\<close>

theorem parse_int_accepts_exactly_numerals:
  "parse_int_from_value_correctly v = Some n \<longleftrightarrow> numeral_text v n"
  by (rule iffI [OF numeral_parsed parse_numeral])

text \<open>C36: A \<^verbatim>\<open>save\<close> line of at most sixteen pairs of numbers (a period in the range of \<^verbatim>\<open>long\<close>, a count of actions
  in the range of \<^verbatim>\<open>int\<close>, one blank between them) is read to its end: the snapshot array holds the pairs in
  order, each number reduced to \<^verbatim>\<open>unsigned int\<close>, its other entries stay unassigned, and no other parameter
  changes.\<close>

theorem save_line_fills_the_array:
  assumes "ps \<noteq> []" and "length ps \<le> 16" and "length (save_text ps) < 256" and "\<forall>pa \<in> set ps. save_pair_ok pa"
    and "mallocs_ok s"
  shows "init_configuration (Some (config_file [(''save'', save_text ps)], True)) s =
    Some (Ret (), s\<lparr>config := DEFAULT_CONFIG\<lparr>save_data := Ptr (map snapshot ps @ replicate (16 - length ps) None)\<rparr>,
      mallocs := tl (mallocs s)\<rparr>)"
proof -
  have "\<forall>p \<in> set [(''save'', save_text ps)]. param_ok p" using save_text_param [OF assms(1,3)] by simp
  note lines_read = config_lines_file [OF this]
  have "mallocs_ok (s\<lparr>config := DEFAULT_CONFIG\<rparr>)" using assms(5) by (simp add: mallocs_ok_def)
  from set_parameter_save [OF assms(4,2) this] show ?thesis by (auto simp: init_configuration_def lines_read)
qed

lemma save_line_fills_the_array_witness:
  "save_text [(3600, 1), (60, 10000)] = ''3600 1 60 10000'' \<and>
   init_configuration (Some (config_file [(''save'', save_text [(3600, 1), (60, 10000)])], True)) fresh_worker =
   Some (Ret (), fresh_worker\<lparr>config := DEFAULT_CONFIG\<lparr>save_data :=
       Ptr (map snapshot [(3600, 1), (60, 10000)] @ replicate (16 - length [(3600 :: int, 1 :: int), (60, 10000)]) None)\<rparr>,
     mallocs := tl (mallocs fresh_worker)\<rparr>)"
proof -
  have chars: "save_text [(3600, 1), (60, 10000)] = ''3600 1 60 10000''"
    by (simp add: save_text_def dec_int_def digit_def dec.simps [of 3600] dec.simps [of 360] dec.simps [of 36] dec.simps [of 3]
        dec.simps [of "Suc 0"] dec.simps [of 60] dec.simps [of 6] dec.simps [of 10000] dec.simps [of 1000]
        dec.simps [of 100] dec.simps [of 10]) (intro conjI; code_simp)
  moreover have "init_configuration (Some (config_file [(''save'', save_text [(3600, 1), (60, 10000)])], True)) fresh_worker =
   Some (Ret (), fresh_worker\<lparr>config := DEFAULT_CONFIG\<lparr>save_data :=
       Ptr (map snapshot [(3600, 1), (60, 10000)] @ replicate (16 - length [(3600 :: int, 1 :: int), (60, 10000)]) None)\<rparr>,
     mallocs := tl (mallocs fresh_worker)\<rparr>)"
    by (rule save_line_fills_the_array)
       (simp_all add: chars fresh_worker_def mallocs_ok_def save_pair_ok_def int_range_def)
  ultimately show ?thesis ..
qed

text \<open>C37: A \<^verbatim>\<open>save\<close> line with a token that is not a number, in reach of the array, is never finished: the
  token is tested again without fetching the next one, and the start of the proxy hangs.\<close>

theorem save_line_hangs:
  assumes "parse_int_from_value_correctly t = None" and "t \<in> set (strtok_from [] v)"
    and "length (strtok_from [] v) \<le> 33" and "mallocs_ok s"
  shows "set_parameter ''save'' v s = None"
  using save_loop_hangs [OF assms(1,2), of "replicate 16 None" 0] assms(3,4)
  by (simp add: set_parameter_def run)

lemma save_line_hangs_witness: "set_parameter ''save'' ''3600 one'' fresh_worker = None"
proof (rule save_line_hangs [where t = "''one''"])
  show "parse_int_from_value_correctly ''one'' = None"
    by (simp add: parse_int_from_value_correctly_def strtol_def cut_sign_def is_space_def is_digit_def)
qed (simp_all add: fresh_worker_def mallocs_ok_def)

section \<open>The tables\<close>

text \<open>C31: \<^verbatim>\<open>init_table\<close> leaves every configured table in place: a missing one is created empty, an existing
  one keeps its content, no other table changes, and each number has a new, empty hash table.\<close>

theorem init_table_completes_the_schema:
  assumes "schema_laws P hv tabs" and "dynahash_laws D" and "\<forall>t. hd_create D t KEY_SIZE DATA_SIZE \<noteq> None"
    and "db_reachable P tabs (server s)" and "mallocs_ok s" and "hashes s = Ptr arr"
    and "unat (db_count (config s)) \<le> length arr" and "unat (db_count (config s)) \<le> 100000"
  shows "\<exists>s' arr'. init_table D P s = (Ret 0, s') \<and> hashes s' = Ptr arr' \<and>
    empty_tables D 0 (unat (db_count (config s))) arr' \<and>
    hv (server s') = with_new_tables (tabs (server s)) 0 (unat (db_count (config s))) (hv (server s))"
proof -
  have create: "hd_create D t KEY_SIZE DATA_SIZE \<noteq> None" for t using assms(3) by blast
  show ?thesis using init_table_spec [OF assms(1,2) create assms(4-6) refl assms(7,8)] by force
qed

lemma init_table_completes_the_schema_witness:
  "\<exists>s' arr'. init_table ref_dynahash cat_libpq (fresh_worker\<lparr>hashes := Ptr (replicate 16 None)\<rparr>) = (Ret 0, s') \<and>
     hashes s' = Ptr arr' \<and>
     empty_tables ref_dynahash 0 (unat (db_count (config (fresh_worker\<lparr>hashes := Ptr (replicate 16 None)\<rparr>)))) arr' \<and>
     cat_hv (server s') = with_new_tables (fst (server (fresh_worker\<lparr>hashes := Ptr (replicate 16 None)\<rparr>))) 0
       (unat (db_count (config (fresh_worker\<lparr>hashes := Ptr (replicate 16 None)\<rparr>))))
       (cat_hv (server (fresh_worker\<lparr>hashes := Ptr (replicate 16 None)\<rparr>)))"
  by (rule init_table_completes_the_schema [OF cat_schema_laws ref_dynahash_laws, where arr = "replicate 16 None"])
     (simp_all add: cat_reachable fresh_worker_def mallocs_ok_def DEFAULT_CONFIG_def ref_dynahash_def)

section \<open>Off the straight path\<close>

text \<open>C39: When the statement's buffer cannot be allocated, the three database requests stop with an error
  before anything is sent: the server is what it was.\<close>

theorem no_memory_no_request:
  assumes "out_of_memory s" and "connected s"
  shows "(\<exists>s'. get_value P t k out s = (Exit ''can't malloc'', s') \<and> server s' = server s) \<and>
    (\<exists>s'. set_value P t k v s = (Exit ''can't malloc'', s') \<and> server s' = server s) \<and>
    (\<exists>s'. del_value P t k s = (Exit ''can't malloc'', s') \<and> server s' = server s)"
  by (simp add: value_requests_out_of_memory [OF assms])

lemma no_memory_no_request_witness:
  "(\<exists>s'. get_value cat_libpq ''redis_0'' ''k'' (NULL, 0) ((demo NO_CACHE)\<lparr>mallocs := [False]\<rparr>) = (Exit ''can't malloc'', s') \<and>
      server s' = server ((demo NO_CACHE)\<lparr>mallocs := [False]\<rparr>)) \<and>
   (\<exists>s'. set_value cat_libpq ''redis_0'' ''k'' ''v'' ((demo NO_CACHE)\<lparr>mallocs := [False]\<rparr>) = (Exit ''can't malloc'', s') \<and>
      server s' = server ((demo NO_CACHE)\<lparr>mallocs := [False]\<rparr>)) \<and>
   (\<exists>s'. del_value cat_libpq ''redis_0'' ''k'' ((demo NO_CACHE)\<lparr>mallocs := [False]\<rparr>) = (Exit ''can't malloc'', s') \<and>
      server s' = server ((demo NO_CACHE)\<lparr>mallocs := [False]\<rparr>))"
  by (rule no_memory_no_request) (simp_all add: out_of_memory_def malloc_grants_def)

text \<open>C40: The transaction buffer and the error reply are written before, or without, the test of their
  allocation: a refused one is a null dereference.\<close>

theorem unchecked_allocations_fault:
  assumes "\<not> malloc_grants s"
  shows "fst (init_transaction n s) = Fault Null_Deref \<and> fst (process_error e s) = Fault Null_Deref"
  by (simp add: init_transaction_refused [OF assms] process_error_refused [OF assms])

lemma unchecked_allocations_fault_witness:
  "fst (init_transaction 40 ((demo DEFFER_DUMP)\<lparr>mallocs := [False]\<rparr>)) = Fault Null_Deref \<and>
   fst (process_error ERROR_COMMAND_NOT_FOUND ((demo DEFFER_DUMP)\<lparr>mallocs := [False]\<rparr>)) = Fault Null_Deref"
  by (rule unchecked_allocations_fault) (simp add: malloc_grants_def)

text \<open>C27: A client that disconnects (or whose \<^verbatim>\<open>read\<close> fails) after the first part of a request, the count of its
  arguments and any number of them but the last: the part is taken without a fault, and on the disconnection
  \<^verbatim>\<open>close_connection\<close> frees all \<^verbatim>\<open>argc\<close> entries of \<^verbatim>\<open>argv\<close>, of which those that have not come are indeterminate.\<close>

theorem disconnect_frees_unassigned_arguments:
  fixes s :: "('h, 'd, 'e) world_scheme"
  assumes "i < length (clients s)" and "io_data (clients s ! i) = Ptr d" and "fresh_buffer (read_data d)"
    and "at_boundary (read_data d)" and "mallocs_ok s" and "good_args (as @ bs)" and "bs \<noteq> []"
    and "p = header (length (as @ bs)) @ concat (map arg_frame as)" and "packet p"
    and "input = None \<or> input = Some []"
  shows "\<exists>s1 s2. on_read_cb D P i False (Some p) s = (Ret (), s1) \<and>
    on_read_cb D P i False input s1 = (Fault Uninitialised, s2) \<and> \<not> fd_open (clients s2 ! i)"
  using disconnect_inside_request [OF assms] .

lemma disconnect_frees_unassigned_arguments_witness:
  "\<exists>s1 s2. on_read_cb ref_dynahash cat_libpq 0 False (Some (''*2'' @ CRLF @ ''$3'' @ CRLF @ ''GET'' @ CRLF)) (demo NO_CACHE) =
      (Ret (), s1) \<and>
    on_read_cb ref_dynahash cat_libpq 0 False (Some []) s1 = (Fault Uninitialised, s2) \<and> \<not> fd_open (clients s2 ! 0)"
proof (rule disconnect_frees_unassigned_arguments [where d = new_data and as = "[''GET'']" and bs = "[''k'']"])
  show "''*2'' @ CRLF @ ''$3'' @ CRLF @ ''GET'' @ CRLF =
      header (length ([''GET''] @ [''k''])) @ concat (map arg_frame [''GET''])"
    by code_simp
qed (simp_all add: idle_client_def new_data_def fresh_buffer_def at_boundary_def idle_def good_args_def packet_def)

text \<open>C29: In the regime \<open>ONLY_CACHE\<close> a write that fits the cache is kept there and nowhere else: the
  database, its connection and the log stay as they are.\<close>

theorem only_cache_write_stays_in_the_cache:
  assumes "dynahash_laws D" and "service D hv t tn ONLY_CACHE s m u" and "cache_key k" and "cache_value v"
  shows "\<exists>hs. req_set D P k v s = (Ret OK, s\<lparr>hashes := hs\<rparr>) \<and>
    cache_view D tn (s\<lparr>hashes := hs\<rparr>) k = Some (Present v)"
  using only_cache_set [OF assms] .

lemma only_cache_write_stays_in_the_cache_witness:
  "\<exists>hs. req_set ref_dynahash cat_libpq ''k'' ''v'' (demo ONLY_CACHE) = (Ret OK, (demo ONLY_CACHE)\<lparr>hashes := hs\<rparr>) \<and>
    cache_view ref_dynahash 0 ((demo ONLY_CACHE)\<lparr>hashes := hs\<rparr>) ''k'' = Some (Present ''v'')"
  by (rule only_cache_write_stays_in_the_cache [OF ref_dynahash_laws demo_service])
     (simp_all add: cache_key_def cache_value_def)

text \<open>C26: A value is spliced into the UPDATE statement as it is: one that closes the quoted literal makes
  the server execute a second statement of the client's choice.\<close>

theorem value_can_carry_a_statement:
  assumes "pq_exec P (server s) (sql_update t k v @ sql_update t' k' v') =
      (\<lparr>res_status = PGRES_COMMAND_OK, res_rows = rows\<rparr>, d)"
    and "mallocs_ok s" and "connected s" and "conn s = Ptr ()"
    and "strlen t + strlen k + strlen (breakout v t' k' v') < 2 ^ 30"
  shows "\<exists>s'. set_value P t k (breakout v t' k' v') s = (Ret OK, s') \<and> server s' = d"
  using set_value_breakout [OF assms] .

lemma two_updates:
  "pq_exec cat_libpq ([''redis_0''], [''redis_0'' \<mapsto> Map.empty])
     (sql_update ''redis_0'' ''k'' ''v'' @ sql_update ''redis_0'' ''admin'' ''1'') =
   (\<lparr>res_status = PGRES_COMMAND_OK, res_rows = []\<rparr>, ([''redis_0''], [''redis_0'' \<mapsto> [''k'' \<mapsto> ''v'', ''admin'' \<mapsto> ''1'']]))"
proof -
  let ?t = "''redis_0''" and ?w1 = "(''k'', Some ''v'')" and ?w2 = "(''admin'', Some ''1'')"
  let ?b = "write_sql ?t ?w2" and ?d = "[?t \<mapsto> Map.empty]"
  have t: "plain ?t" "safe_write ?w1" "safe_write ?w2" by (simp_all add: plain_def safe_write_def sql_safe_def)
  have ab: "sql_update ?t ''k'' ''v'' @ sql_update ?t ''admin'' ''1'' = write_sql ?t ?w1 @ ?b"
    by (simp add: write_sql_def)
  have n: "length (write_sql ?t ?w1 @ ?b) = Suc (Suc 62)" by (simp add: write_sql_def sql_update_def)
  have two: "p_stmt ?b = Some (Write ?t ?w2, [])" using p_stmt_write [OF t(3,1), of "[]"] by simp
  have "ref_script (Suc (Suc 62)) done_ok (write_sql ?t ?w1 @ ?b) ?d = ref_script (Suc 62) done_ok ?b [?t \<mapsto> [''k'' \<mapsto> ''v'']]"
    using ref_script_step [OF p_stmt_write [OF t(2,1)], of ?b "Suc 62" done_ok ?d] sql_nonempty(3) [of ?t ?w1]
    by (simp add: apply_write_def)
  also have "\<dots> = Some (done_ok, [?t \<mapsto> [''k'' \<mapsto> ''v'', ''admin'' \<mapsto> ''1'']])"
    using ref_script_step [OF two sql_nonempty(3), of 62 done_ok] by (simp add: apply_write_def)
  finally show ?thesis
    unfolding ab by (simp only: cat_libpq_def libpq.simps cat_exec_def n snd_conv) (simp add: done_ok_def)
qed

lemma value_can_carry_a_statement_witness:
  "\<exists>s'. set_value cat_libpq ''redis_0'' ''k'' (breakout ''v'' ''redis_0'' ''admin'' ''1'') (demo NO_CACHE) = (Ret OK, s') \<and>
    server s' = ([''redis_0''], [''redis_0'' \<mapsto> [''k'' \<mapsto> ''v'', ''admin'' \<mapsto> ''1'']])"
  by (rule value_can_carry_a_statement) (simp_all add: two_updates strlen_def breakout_def)

text \<open>C24: A COMMAND request (in any case of letters, the first thing \<^verbatim>\<open>redis-cli\<close> sends) that comes first in a
  packet makes the read callback dereference the NULL \<^verbatim>\<open>pg_answer\<close>.\<close>

theorem command_request_null_dereference:
  assumes "map big_char cmd = ''COMMAND''" and "NUL \<notin> set cmd" and "good_args (cmd # as)"
    and "i < length (clients s)" and "io_data (clients s ! i) = Ptr d" and "fresh_buffer (read_data d)"
    and "at_boundary (read_data d)" and "packet (resp_request (cmd # as) @ bs)" and "mallocs_ok s"
  shows "fst (on_read_cb D P i False (Some (resp_request (cmd # as) @ bs)) s) = Fault Null_Deref"
  using command_request_faults [OF assms] .

lemma command_request_null_dereference_witness:
  "fst (on_read_cb ref_dynahash cat_libpq 0 False (Some (resp_request [''COMMAND'', ''DOCS''] @ [])) (demo NO_CACHE)) =
   Fault Null_Deref"
proof (rule command_request_null_dereference [where d = new_data])
  show "packet (resp_request [''COMMAND'', ''DOCS''] @ [])"
    by (simp add: packet_def resp_request_def header_def arg_frame_def bulk_def dec.simps digit_def)
qed (simp_all add: idle_client_def new_data_def fresh_buffer_def at_boundary_def idle_def good_args_def big_char_def)

section \<open>Writing and closing\<close>

text \<open>C28: When the kernel takes all queued bytes, the queue is empty afterwards and the write watcher is
  stopped; nothing else changes.\<close>

theorem write_callback_drains:
  assumes "i < length (clients s)" and "client_holds (clients s ! i) x"
  shows "\<exists>c'. on_write_cb i (int (length (outbox x))) s = (Ret (), s\<lparr>clients := (clients s)[i := c']\<rparr>) \<and>
    client_holds c' (x\<lparr>outbox := []\<rparr>) \<and> \<not> writer_on c'"
  using on_write_cb_all [OF assms] by (force simp: client_holds_def)

lemma write_callback_drains_witness:
  "\<exists>c'. on_write_cb 0 (int (length (outbox \<lparr>to_come = [], stream = [], outbox = ''+PONG'' @ CRLF\<rparr>)))
        ((demo NO_CACHE)\<lparr>clients := [pong_client]\<rparr>) =
      (Ret (), (demo NO_CACHE)\<lparr>clients := [pong_client]\<rparr>\<lparr>clients := (clients ((demo NO_CACHE)\<lparr>clients := [pong_client]\<rparr>))[0 := c']\<rparr>) \<and>
    client_holds c' (\<lparr>to_come = [], stream = [], outbox = ''+PONG'' @ CRLF\<rparr>\<lparr>outbox := []\<rparr>) \<and> \<not> writer_on c'"
  by (rule write_callback_drains) (use pong_holds in simp_all)

text \<open>C23: When the kernel takes only \<open>n\<close> of the \<open>k\<close> queued bytes, the rest is not moved to the front
  correctly: the length of the \<^verbatim>\<open>memcpy\<close> is \<open>k - 2n\<close>.  It is negative for \<open>2n > k\<close> (an out-of-bounds copy),
  the regions overlap for \<open>3n < k\<close>, and in between the last \<open>n\<close> bytes of the rest are left where they were.\<close>

theorem partial_write_corrupts:
  assumes "i < length (clients s)" and "io_data (clients s ! i) = Ptr d"
    and "answer (write_data d) = Ptr b" and "size_answer (write_data d) = int (length b)" and "n < length b"
  shows "on_write_cb i (int n) s =
    (if length b < 2 * n then (Fault Out_Of_Bounds, s)
     else if 3 * n < length b then (Fault Overlapping_Copy, s)
     else set_data i (d\<lparr>write_data := \<lparr>answer = Ptr (take (length b - 2 * n) (drop n b) @ drop (length b - 2 * n) b),
             size_answer = int (length b - n)\<rparr>\<rparr>) s)"
  using on_write_cb_partial [OF assms] .

lemma partial_write_corrupts_witness:
  "on_write_cb 0 (int 2) ((demo NO_CACHE)\<lparr>clients := [pong_client]\<rparr>) =
    (if length (cells (''+PONG'' @ CRLF)) < 2 * 2 then (Fault Out_Of_Bounds, (demo NO_CACHE)\<lparr>clients := [pong_client]\<rparr>)
     else if 3 * 2 < length (cells (''+PONG'' @ CRLF)) then (Fault Overlapping_Copy, (demo NO_CACHE)\<lparr>clients := [pong_client]\<rparr>)
     else set_data 0 ((new_data\<lparr>write_data := \<lparr>answer = Ptr (cells (''+PONG'' @ CRLF)), size_answer = 7\<rparr>\<rparr>)\<lparr>write_data :=
           \<lparr>answer = Ptr (take (length (cells (''+PONG'' @ CRLF)) - 2 * 2) (drop 2 (cells (''+PONG'' @ CRLF))) @
                         drop (length (cells (''+PONG'' @ CRLF)) - 2 * 2) (cells (''+PONG'' @ CRLF))),
             size_answer = int (length (cells (''+PONG'' @ CRLF)) - 2)\<rparr>\<rparr>) ((demo NO_CACHE)\<lparr>clients := [pong_client]\<rparr>))"
  by (rule partial_write_corrupts) (simp_all add: pong_client_def)

text \<open>C22: The end of a client's stream, or an error of \<^verbatim>\<open>read\<close>: \<^verbatim>\<open>read_data\<close> closes the descriptor and frees the
  connection's data, and \<^verbatim>\<open>on_read_cb\<close> then stores the result into them.\<close>

theorem disconnect_writes_freed_memory:
  assumes "i < length (clients s)" and "io_data (clients s ! i) = Ptr d" and "at_boundary (read_data d)"
    and "argv (read_data d) \<noteq> Dangling" and "answer (write_data d) \<noteq> Dangling" and "input = None \<or> input = Some []"
  shows "\<exists>s'. on_read_cb D P i False input s = (Fault Use_After_Free, s') \<and> \<not> fd_open (clients s' ! i)"
  using disconnect_faults [OF assms] .

lemma disconnect_writes_freed_memory_witness:
  "\<exists>s'. on_read_cb ref_dynahash cat_libpq 0 False (Some []) (demo NO_CACHE) = (Fault Use_After_Free, s') \<and>
    \<not> fd_open (clients s' ! 0)"
  by (rule disconnect_writes_freed_memory [where d = new_data])
     (simp_all add: idle_client_def new_data_def at_boundary_def idle_def)

section \<open>Synchronisation\<close>

text \<open>C8: \<^verbatim>\<open>sync_with_db\<close> applies the logged operations to the current table, all of them and in order, leaves
  every other table alone, and empties the log.\<close>

theorem sync_applies_the_log:
  fixes s :: "('h, 'd, 'e) log_st_scheme"
  assumes "log_holds t s ws" and "status_ok t tn s" and "db_ok hv t s m"
    and "log_size t ws < 2 ^ 31 - 14" and "NUL \<notin> set t" and "\<forall>w \<in> set ws. safe_write w" and "hstore_laws P hv"
  shows "\<exists>s'. sync_with_db P s = (Ret 0, s') \<and> log_holds t s' [] \<and>
    hv (server s') = (hv (server s))(t \<mapsto> fold apply_write ws m)"
  using sync_with_db_spec [OF assms] by blast

lemma sync_applies_the_log_witness:
  "\<exists>s1 s'. log_write (''k'', Some ''v'') (demo DEFFER_DUMP) = (Ret 0, s1) \<and> sync_with_db cat_libpq s1 = (Ret 0, s') \<and>
    log_holds ''redis_0'' s' [] \<and>
    cat_hv (server s') = (cat_hv (server s1))(''redis_0'' \<mapsto> fold apply_write [(''k'', Some ''v'')] Map.empty)"
proof -
  obtain ms l ns where w: "log_write (''k'', Some ''v'') (demo DEFFER_DUMP) =
        (Ret 0, (demo DEFFER_DUMP)\<lparr>mallocs := ms, logger_op := Ptr l, op_nodes := ns\<rparr>)" "no_refusal ms"
      "log_holds ''redis_0'' ((demo DEFFER_DUMP)\<lparr>mallocs := ms, logger_op := Ptr l, op_nodes := ns\<rparr>) ([] @ [(''k'', Some ''v'')])"
    using log_operation_spec [OF demo_log demo_ok _ demo_status, of "(''k'', Some ''v'')" "Ptr ''v''" Map.empty DEFFER_DUMP]
    by (auto simp: log_write_def value_ptr_def loggable_def strlen_def)
  let ?s1 = "(demo DEFFER_DUMP)\<lparr>mallocs := ms, logger_op := Ptr l, op_nodes := ns\<rparr>"
  have "\<exists>s'. sync_with_db cat_libpq ?s1 = (Ret 0, s') \<and> log_holds ''redis_0'' s' [] \<and>
      cat_hv (server s') = (cat_hv (server ?s1))(''redis_0'' \<mapsto> fold apply_write [(''k'', Some ''v'')] Map.empty)"
  proof (rule sync_applies_the_log [OF _ _ _ _ _ _ cat_hstore_laws])
    show "log_holds ''redis_0'' ?s1 [(''k'', Some ''v'')]" using w(3) by simp
    show "status_ok ''redis_0'' 0 ?s1" using demo_status by (simp add: status_ok_def)
    show "db_ok cat_hv ''redis_0'' ?s1 Map.empty" using demo_db w(2) by (simp add: db_ok_def mallocs_ok_def)
  qed (simp_all add: safe_write_def sql_safe_def log_size_def strlen_def write_sql_def sql_update_def
      param_size_of_def op_reqv_size_def write_op_def)
  then show ?thesis using w(1) by blast
qed

end
