(* ===== verification/Spec2Isabelle.thy ===== *)
theory Spec2Isabelle
  imports Component_Claims
begin

text \<open>
  \<^bold>\<open>pg\_redis\_proxy: a model of the proxy and its correctness.\<close>

  \<^bold>\<open>The program.\<close>  A PostgreSQL background worker that speaks the Redis protocol: clients send GET, SET, DEL
  and PING, the worker answers from hash tables in its memory (the cache) or from tables with one
  \<^verbatim>\<open>hstore\<close> column in the database it runs beside.  \<^verbatim>\<open>redis_proxy.c\<close> reads \<^verbatim>\<open>redis.conf\<close>, creates the missing
  tables and runs a libev loop with four callbacks; \<^verbatim>\<open>on_read_cb\<close> reads at most BUFFER\_SIZE bytes, runs the
  incremental parser (\<^verbatim>\<open>work_with_socket\<close>), hands each complete request to the command layer
  (\<^verbatim>\<open>redis_reqv_converter\<close>), which asks the request layer (\<^verbatim>\<open>send_req_postgres\<close>), and queues the reply as
  \<^verbatim>\<open>postgres_reqv_converter\<close> encodes it.  The request layer consults the caching regime
  (\<^verbatim>\<open>configure_proxy\<close>), the cache (\<^verbatim>\<open>proxy_hash\<close>), the database (\<^verbatim>\<open>work_with_db\<close>), and in the regime
  DEFFER\_DUMP the log of operations (\<^verbatim>\<open>logger\<close>) that a timer, or a full log, sends as one transaction.

  \<^bold>\<open>The style of the model.\<close>  A C function is a \<open>prog\<close>: a function of the state to an outcome and the new state.
  The outcome is \<open>Ret x\<close>, \<open>Exit msg\<close> for \<^verbatim>\<open>ereport(ERROR)\<close>, or \<open>Fault u\<close> for undefined behaviour: every
  dereference, \<^verbatim>\<open>free\<close>, array access, copy and signed addition of the source that can go wrong is checked.
  The state is one record extended module by module (allocator, configuration, cache, database connection, log,
  clients, watchers), so that a lower module's functions run on every larger state.  A buffer is a list of bytes of
  fixed length in which \<open>None\<close> is indeterminate; a pointer is \<open>NULL\<close>, \<open>Dangling\<close> or \<open>Ptr\<close> of its object.
  Whether \<^verbatim>\<open>ereport(ERROR)\<close> returns is a parameter of the state (\<open>error_returns\<close>), which allocations are refused is
  a list in it (\<open>mallocs\<close>); what the kernel answers is an argument of the callbacks.

  \<^bold>\<open>Theories and sources.\<close>
    \<^item> \<open>Prelude\<close>: programs, pointers, buffers, \<^verbatim>\<open>malloc\<close>, C strings, decimal numerals, and the collection \<open>run\<close> of
      equations that execute a program.
    \<^item> \<open>Proxy_Status\<close>, \<open>Configure_Proxy\<close>: \<^verbatim>\<open>configure_proxy\<close> (the configuration and its getters; the reader of the
      file with \<^verbatim>\<open>strtol\<close> and \<^verbatim>\<open>strtok\<close>, \<^verbatim>\<open>init_table\<close>).
    \<^item> \<open>Proxy_Hash\<close>: \<^verbatim>\<open>proxy_hash\<close> over a parameter \<open>dynahash\<close>, with the locale \<open>request_cache\<close>.
    \<^item> \<open>Work_With_Db\<close>: \<^verbatim>\<open>work_with_db\<close> over a parameter \<open>libpq\<close>; \<open>hstore_laws\<close> states what the server does
      with the program's own statements on tables that are maps.
    \<^item> \<open>Logger\<close>: \<^verbatim>\<open>logger\<close>, the list of nodes on a heap of its own, with the locale \<open>write_log\<close>.
    \<^item> \<open>Send_Req_Postgres\<close>: \<^verbatim>\<open>send_req_postgres\<close> and \<^verbatim>\<open>add_log\<close> (the two files call each other); the invariant \<open>service\<close> that
      ties cache, log and database to one map, and the locales \<open>kv_service\<close> and \<open>flushed_service\<close>.
    \<^item> \<open>Redis_Reqv_Converter\<close>, \<open>Postgres_Reqv_Converter\<close>: the command layer and the replies, with a
      specification per command (\<open>command_spec\<close>) and the RESP data type.
    \<^item> \<open>Work_With_Socket\<close>: the connection's data and the parser; \<open>feed\<close> is the byte automaton behind it.
    \<^item> \<open>Redis_Proxy\<close>: sockets, callbacks and the event loop (\<open>ev_step\<close>, \<open>ev_run\<close>); \<open>Startup\<close>: \<^verbatim>\<open>proxy_start_work\<close>.
    \<^item> \<open>Request_Stream\<close>, \<open>Serving\<close>: how the parser cuts a stream of packets into requests whatever state it is run
      in, the abstract server \<open>abs_step\<close>, and the simulation \<open>sim\<close>.
    \<^item> \<open>Parser_Safety\<close>, \<open>Failure_Paths\<close>: bytes that are no request, packets that complete none, a
      disconnection inside a request, refused allocations.
    \<^item> \<open>Resp_Replies\<close>: a RESP reader for the client's side.
    \<^item> \<open>Reference_Backends\<close>, \<open>Reference_Catalogue\<close>, \<open>Demo_World\<close>: a hash table and a server, with an SQL parser for
      the program's statements, that satisfy the laws, and a concrete state for the applications.
    \<^item> \<open>Component_Claims\<close>: the properties of single components; here: those that span components.

  \<^bold>\<open>What is shown.\<close>  A worker started on a well-formed file reaches its loop and from then on simulates an
  abstract server that holds one map and answers each request of each client in order
  (\<open>worker_serves_the_database\<close>, \<open>proxy_refines_the_server\<close>), however requests are cut into packets or
  pipelined (\<open>stream_is_answered\<close>, \<open>packets_decode_request\<close>).  The four regimes implement the same map
  (\<open>requests_refine_one_map\<close>, \<open>regimes_answer_alike\<close>); what is in the database, and when, is the
  subject of the other theorems on the request layer.  The component lemmas are the functional behaviour of the operations on every branch, the invariants
  \<open>cache_ok\<close>, \<open>log_holds\<close>, \<open>chain_ok\<close>, \<open>service\<close>, \<open>parsing_ok\<close>, and round trips for numbers, replies
  and requests.  The other group of theorems shows what the code does outside of these conditions: partial
  writes, disconnections between and inside requests, empty and negative lengths, COMMAND, oversize values, quotes in values, refused
  allocations, and a \<^verbatim>\<open>save\<close> line with a word in it.

  \<^bold>\<open>Bounds and fuel.\<close>  There is no fuel in the model.  Loops over a buffer, a list of tables, the log or the lines of a file
  are functions with termination proofs, the request loop included (each complete request shortens the buffer).
  Only the loop over a \<^verbatim>\<open>save\<close> line may run forever and is a \<open>partial_function\<close>, with \<open>None\<close> as its value there.
  \<^verbatim>\<open>int\<close> is an integer with explicit range checks, \<^verbatim>\<open>unsigned int\<close> a 32-bit word; sizes computed in
  \<^verbatim>\<open>size_t\<close> and stored in \<^verbatim>\<open>int\<close> go through \<open>to_int\<close>.  The bounds of the theorems (\<open>2 ^ 30\<close> bytes of key,
  table name and value, \<open>2 ^ 31\<close> bytes of queued replies, 100000 databases) are those of these conversions
  and of the array \<^verbatim>\<open>new_table_name[12]\<close>.  Three places are laxer than ISO C: \<^verbatim>\<open>atoi\<close> outside \<^verbatim>\<open>int\<close> gives the
  reduced value (the theorem about the array it fills stays inside); the copy of VALUE\_SIZE bytes from a shorter
  string into the cache gives indeterminate bytes behind its terminator and is no fault (a fault would make
  every caching SET undefined); and the \<open>size + 1\<close> of the statement buffers is not checked against \<^verbatim>\<open>int\<close> (all
  theorems that compute it bound the sizes by \<open>2 ^ 30\<close>, or end at the refused allocation).

  \<^bold>\<open>Hypotheses on code that is not in the repository.\<close>  \<open>dynahash_laws\<close> (a found or entered element is the one of its key, and
  stays until it is written), \<open>hstore_laws\<close> and \<open>schema_laws\<close> (what the server does with the statements and the
  catalogue queries), and the allocator.  Each theorem that uses them is applied to the reference backends.

  \<^bold>\<open>Not modelled.\<close>  \<^verbatim>\<open>_PG_init\<close> and \<^verbatim>\<open>register_proxy\<close> (they fill a PostgreSQL structure); \<^verbatim>\<open>bind\<close>, \<^verbatim>\<open>listen\<close>
  and the socket options, each of which is one Boolean of the environment, like the result of \<^verbatim>\<open>fclose\<close>; \<^verbatim>\<open>ereport\<close> below ERROR, including
  its reads of the strings it prints; the numbers that error messages contain; the contents of the \<^verbatim>\<open>ev_io\<close> structures
  beyond descriptor, data and whether they are started; memory that is leaked; the code behind the endless loop of \<^verbatim>\<open>proxy_start_work\<close>; signals; \<^verbatim>\<open>free\<close> of the two \<^verbatim>\<open>ev_io\<close>s on a disconnection;
  the tests under \<^verbatim>\<open>t/\<close>.
\<close>

section \<open>The whole proxy\<close>

text \<open>C1: From the configuration file to the last event: started on a well-formed file and a reachable
  server, the worker creates every configured table that is missing (and leaves the content of all others),
  sets up one empty hash table for each, starts its watchers and enters its event loop; and every run of the
  abstract server from the content of \<^verbatim>\<open>redis_0\<close> (clients that connect, packets cut anywhere, pipelined
  requests, writes, timer ticks) is a run of the proxy, with the same queued bytes and the same map at its end.\<close>

theorem worker_serves_the_database:
  fixes s :: "('h, 'd, 'e) proxy_run_scheme"
  assumes "dynahash_laws D" and "\<forall>t. hd_create D t KEY_SIZE DATA_SIZE \<noteq> None" and "hstore_laws P hv"
    and "schema_laws P hv tabs" and "db_reachable P tabs (server s)"
    and "mallocs_ok s" and "op_nodes s = []" and "clients s = []"
    and "\<forall>p \<in> set ps. param_ok p" and "file_config ps c s"
    and "0 < unat (db_count c)" and "unat (db_count c) \<le> 100000"
    and "first_table hv tabs (server s) m" and "env_ready env"
    and "abs_run (request_ok ''redis_0'' (caching_regime c)) (m, []) es a"
    and "Timeout \<in> set es \<longrightarrow> caching_regime c = DEFFER_DUMP"
  shows "\<exists>s0 s'. proxy_start_work D P env (Some (config_file ps, True)) s = Some (Ret True, s0) \<and>
    hv (server s0) = with_new_tables (tabs (server s)) 0 (unat (db_count c)) (hv (server s)) \<and>
    (\<exists>arr. hashes s0 = Ptr arr \<and> empty_tables D 0 (unat (db_count c)) arr) \<and>
    accept_watch s0 = Some (listen_fd env) \<and>
    timer_watch s0 = (if caching_regime c = DEFFER_DUMP then Some 1 else timer_watch s) \<and>
    ev_run D P s0 es s' \<and> sim D hv ''redis_0'' 0 (caching_regime c) s' a"
proof -
  have create: "hd_create D t KEY_SIZE DATA_SIZE \<noteq> None" for t using assms(2) by blast
  obtain s0 where "proxy_start_work D P env (Some (config_file ps, True)) s = Some (Ret True, s0)"
      "hv (server s0) = with_new_tables (tabs (server s)) 0 (unat (db_count c)) (hv (server s))"
      "\<exists>arr. hashes s0 = Ptr arr \<and> empty_tables D 0 (unat (db_count c)) arr" "accept_watch s0 = Some (listen_fd env)"
      "timer_watch s0 = (if caching_regime c = DEFFER_DUMP then Some 1 else timer_watch s)"
      "sim D hv ''redis_0'' 0 (caching_regime c) s0 (m, [])"
    using proxy_start_work_spec [OF assms(1) create assms(4-14)] by blast
  then show ?thesis
    using sim_run [OF assms(1,3) _ assms(15) _ assms(16)] demo_table by blast
qed

definition demo_params :: "(string \<times> string) list" where
  "demo_params = [(''databases'', ''2''), (''cache-regime'', ''deffer-dump'')]"

definition demo_env :: start_env where
  "demo_env = \<lparr>ev_loop_ok = True, listen_fd = 3, listen_fcntl = (2, 0), listen_reuseaddr_ok = True,
     bind_ok = True, listen_ok = True\<rparr>"

definition demo_accept :: accept_env where
  "demo_accept = \<lparr>accepted = 9, nonblock_fcntl = (2, 0), reuseaddr_ok = True, nodelay_ok = True\<rparr>"

abbreviation demo_config :: ProxyConfiguration where
  "demo_config \<equiv> DEFAULT_CONFIG\<lparr>db_count := 2, caching_regime := DEFFER_DUMP\<rparr>"

abbreviation demo_stream :: string where
  "demo_stream \<equiv> concat (map resp_request demo_requests)"

lemma demo_stream_bytes: "demo_stream =
    ''*3'' @ CRLF @ ''$3'' @ CRLF @ ''SET'' @ CRLF @ ''$1'' @ CRLF @ ''k'' @ CRLF @ ''$1'' @ CRLF @ ''v'' @ CRLF @
    ''*2'' @ CRLF @ ''$3'' @ CRLF @ ''get'' @ CRLF @ ''$1'' @ CRLF @ ''k'' @ CRLF @
    ''*3'' @ CRLF @ ''$3'' @ CRLF @ ''DEL'' @ CRLF @ ''$1'' @ CRLF @ ''k'' @ CRLF @ ''$1'' @ CRLF @ ''x'' @ CRLF"
  by code_simp

lemma demo_answers: "fst (session demo_requests Map.empty) =
    ''+OK'' @ CRLF @ ''$1'' @ CRLF @ ''v'' @ CRLF @ '':1'' @ CRLF"
  by code_simp

lemma demo_run: "abs_run (request_ok ''redis_0'' DEFFER_DUMP) (Map.empty, [])
    [Accept demo_accept, Readable 0 False (Some demo_stream), Timeout]
    (snd (session demo_requests Map.empty),
     [\<lparr>to_come = [], stream = [], outbox = fst (session demo_requests Map.empty)\<rparr>])"
proof -
  let ?good = "request_ok ''redis_0'' DEFFER_DUMP"
  let ?x = "\<lparr>to_come = demo_requests, stream = demo_stream, outbox = []\<rparr>"
  have "abs_step ?good (Map.empty, []) (Accept demo_accept) (Map.empty, [] @ [?x])"
    using demo_requests_ok by (intro a_accept) (simp_all add: demo_accept_def)
  moreover have "abs_step ?good (Map.empty, [?x]) (Readable 0 False (Some demo_stream))
      (snd (session demo_requests Map.empty),
       [?x][0 := \<lparr>to_come = [], stream = [], outbox = outbox ([?x] ! 0) @ fst (session demo_requests Map.empty)\<rparr>])"
    by (rule a_read) (simp_all add: demo_answers packet_def pending_stream_def, simp_all add: demo_stream_bytes, simp add: demo_requests_def)
  ultimately show ?thesis by (auto intro: abs_cons abs_nil a_timer)
qed

lemma worker_serves_the_database_witness:
  "\<exists>s0 s'. proxy_start_work ref_dynahash cat_libpq demo_env (Some (config_file demo_params, True)) fresh_worker = Some (Ret True, s0) \<and>
    cat_hv (server s0) = with_new_tables (fst (server fresh_worker)) 0 (unat (db_count demo_config)) (cat_hv (server fresh_worker)) \<and>
    (\<exists>arr. hashes s0 = Ptr arr \<and> empty_tables ref_dynahash 0 (unat (db_count demo_config)) arr) \<and>
    accept_watch s0 = Some (listen_fd demo_env) \<and>
    timer_watch s0 = (if caching_regime demo_config = DEFFER_DUMP then Some 1 else timer_watch fresh_worker) \<and>
    ev_run ref_dynahash cat_libpq s0 [Accept demo_accept, Readable 0 False (Some demo_stream), Timeout] s' \<and>
    sim ref_dynahash cat_hv ''redis_0'' 0 (caching_regime demo_config) s'
      (snd (session demo_requests Map.empty), [\<lparr>to_come = [], stream = [], outbox = fst (session demo_requests Map.empty)\<rparr>])"
proof (rule worker_serves_the_database [OF ref_dynahash_laws _ cat_hstore_laws cat_schema_laws, where m = Map.empty])
  have "dec_int 2 = ''2''" by code_simp
  then have two: "parse_int_from_value_correctly ''2'' = Some 2" using parse_int_dec [of 2] by simp
  show "file_config demo_params demo_config fresh_worker"
    by (simp add: file_config_def demo_params_def set_parameter_def config_number_def two cache_regime_of_def)
  show "abs_run (request_ok ''redis_0'' (caching_regime demo_config)) (Map.empty, [])
      [Accept demo_accept, Readable 0 False (Some demo_stream), Timeout]
      (snd (session demo_requests Map.empty), [\<lparr>to_come = [], stream = [], outbox = fst (session demo_requests Map.empty)\<rparr>])"
    using demo_run by simp
qed (simp_all add: fresh_worker_def mallocs_ok_def ref_dynahash_def cat_reachable demo_params_def param_ok_def is_space_def
    first_table_def env_ready_def demo_env_def)

text \<open>C2: The proxy refines the abstract server in every regime and from every corresponding state: for each
  abstract run, from one map and clients with requests to come, the callbacks can process the same events,
  the state they reach is determined by the events, and it corresponds to the end of the abstract run.\<close>

theorem proxy_refines_the_server:
  fixes s :: "('h, 'd, 'e) world_scheme"
  assumes "dynahash_laws D" and "hstore_laws P hv" and "table_ok t"
    and "abs_run (request_ok t R) a es a'" and "sim D hv t tn R s a" and "Timeout \<in> set es \<longrightarrow> R = DEFFER_DUMP"
  shows "\<exists>s'. (\<forall>s''. ev_run D P s es s'' \<longleftrightarrow> s'' = s') \<and> sim D hv t tn R s' a'"
proof -
  obtain s' where s': "ev_run D P s es s'" "sim D hv t tn R s' a'"
    using sim_run [OF assms] by (elim exE conjE)
  have "ev_run D P s es s'' \<longleftrightarrow> s'' = s'" for s'' using s'(1) ev_run_deterministic [OF s'(1)] by metis
  then show ?thesis using s'(2) by (intro exI [of _ s'] conjI allI)
qed

lemma proxy_refines_the_server_witness:
  "\<exists>s'. (\<forall>s''. ev_run ref_dynahash cat_libpq ((demo DEFFER_DUMP)\<lparr>clients := []\<rparr>)
      [Accept demo_accept, Readable 0 False (Some demo_stream), Timeout] s'' \<longleftrightarrow> s'' = s') \<and>
    sim ref_dynahash cat_hv ''redis_0'' 0 DEFFER_DUMP s'
      (snd (session demo_requests Map.empty), [\<lparr>to_come = [], stream = [], outbox = fst (session demo_requests Map.empty)\<rparr>])"
proof (rule proxy_refines_the_server [OF demo_laws demo_run])
  show "sim ref_dynahash cat_hv ''redis_0'' 0 DEFFER_DUMP ((demo DEFFER_DUMP)\<lparr>clients := []\<rparr>) (Map.empty, [])"
    using demo_service by (auto simp: sim_def)
qed simp

text \<open>C3: A client's stream of requests, cut into packets anywhere, is answered completely: reading the
  packets one by one leaves exactly one reply for each request, in order, in the write queue, readable
  by a RESP client, and the map is the one after those requests; the other clients are untouched.\<close>

theorem stream_is_answered:
  fixes s :: "('h, 'd, 'e) world_scheme"
  assumes "dynahash_laws D" and "hstore_laws P hv" and "table_ok t"
    and "service D hv t tn R s m u" and "\<forall>q \<in> set (to_come x). request_ok t R q"
    and "i < length (clients s)" and "client_holds (clients s ! i) x"
    and "\<forall>p \<in> set ps. packet p" and "stream x = concat ps"
    and "length (outbox x @ fst (session (to_come x) u)) < 2 ^ 31"
  shows "\<exists>c' s' m' bytes. read_packets D P i ps s = (Ret (), s') \<and> clients s' = (clients s)[i := c'] \<and>
    client_holds c' \<lparr>to_come = [], stream = [], outbox = outbox x @ bytes\<rparr> \<and>
    resp_decode_all (length (to_come x)) bytes = Some (replies_to (to_come x) u, []) \<and>
    service D hv t tn R s' m' (snd (session (to_come x) u))"
  using read_packets_spec [OF assms] session_decodes [OF assms(5)] by blast

abbreviation demo_packets :: "string list" where
  "demo_packets \<equiv> [take 1 demo_stream, take 40 (drop 1 demo_stream), drop 41 demo_stream]"

lemma stream_is_answered_witness:
  "\<exists>c' s' m' bytes. read_packets ref_dynahash cat_libpq 0 demo_packets (demo GET_CACHE) = (Ret (), s') \<and>
    clients s' = (clients (demo GET_CACHE))[0 := c'] \<and>
    client_holds c' \<lparr>to_come = [], stream = [],
      outbox = outbox \<lparr>to_come = demo_requests, stream = demo_stream, outbox = []\<rparr> @ bytes\<rparr> \<and>
    resp_decode_all (length (to_come \<lparr>to_come = demo_requests, stream = demo_stream, outbox = []\<rparr>)) bytes =
      Some (replies_to (to_come \<lparr>to_come = demo_requests, stream = demo_stream, outbox = []\<rparr>) Map.empty, []) \<and>
    service ref_dynahash cat_hv ''redis_0'' 0 GET_CACHE s' m'
      (snd (session (to_come \<lparr>to_come = demo_requests, stream = demo_stream, outbox = []\<rparr>) Map.empty))"
  by (rule stream_is_answered [OF demo_laws demo_service])
     (use demo_requests_ok in \<open>simp_all add: demo_client demo_answers\<close>, simp_all add: demo_stream_bytes packet_def)

section \<open>The request layer\<close>

text \<open>C5: In every caching regime a sequence of GET, SET and DEL answers as one map would, and leaves that
  map behind: cache, log and database together are one key-value store.\<close>

theorem requests_refine_one_map:
  fixes s :: "('h, 'd, 'e) log_st_scheme"
  assumes "pg_ok D P hv t tn R s" and "\<forall>q \<in> set qs. valid_request (key_ok t) (storable R) q"
  shows "\<exists>s'. run_requests (run_request (req_get D P) (req_set D P) (req_del D P)) qs s =
      (Ret (fst (spec_run qs (pg_view D hv t tn R s))), s') \<and> pg_ok D P hv t tn R s' \<and>
    pg_view D hv t tn R s' = snd (spec_run qs (pg_view D hv t tn R s))"
  using pg_service.requests_refine [OF assms] .

lemma requests_refine_one_map_witness:
  "\<exists>s'. run_requests (run_request (req_get ref_dynahash cat_libpq) (req_set ref_dynahash cat_libpq) (req_del ref_dynahash cat_libpq))
      [Set ''k'' ''v'', Get ''k'', Del ''k'', Get ''k''] (demo ONLY_CACHE) =
      (Ret (fst (spec_run [Set ''k'' ''v'', Get ''k'', Del ''k'', Get ''k''] (pg_view ref_dynahash cat_hv ''redis_0'' 0 ONLY_CACHE (demo ONLY_CACHE)))), s') \<and>
    pg_ok ref_dynahash cat_libpq cat_hv ''redis_0'' 0 ONLY_CACHE s' \<and>
    pg_view ref_dynahash cat_hv ''redis_0'' 0 ONLY_CACHE s' =
      snd (spec_run [Set ''k'' ''v'', Get ''k'', Del ''k'', Get ''k''] (pg_view ref_dynahash cat_hv ''redis_0'' 0 ONLY_CACHE (demo ONLY_CACHE)))"
  by (rule requests_refine_one_map [OF demo_pg_ok]) (simp add: demo_key demo_value)

text \<open>C6: In the deferred regime a sequence of requests followed by the timer's synchronisation leaves in
  the database exactly what the requests left for the clients.\<close>

theorem deferred_requests_reach_the_database:
  fixes s :: "('h, 'd, 'e) log_st_scheme"
  assumes "pg_ok D P hv t tn DEFFER_DUMP s" and "\<forall>q \<in> set qs. valid_request (key_ok t) (storable DEFFER_DUMP) q"
  shows "\<exists>s'. bnd (run_requests (run_request (req_get D P) (req_set D P) (req_del D P)) qs)
        (\<lambda>as. bnd (sync_with_db P) (\<lambda>r. ret (as, r))) s =
      (Ret (fst (spec_run qs (pg_view D hv t tn DEFFER_DUMP s)), 0), s') \<and> pg_ok D P hv t tn DEFFER_DUMP s' \<and>
    pg_view D hv t tn DEFFER_DUMP s' = snd (spec_run qs (pg_view D hv t tn DEFFER_DUMP s)) \<and>
    pg_stored hv t s' = snd (spec_run qs (pg_view D hv t tn DEFFER_DUMP s))"
  using deferred.requests_then_flush [OF assms] .

lemma deferred_requests_reach_the_database_witness:
  "\<exists>s'. bnd (run_requests (run_request (req_get ref_dynahash cat_libpq) (req_set ref_dynahash cat_libpq) (req_del ref_dynahash cat_libpq))
         [Set ''k'' ''v''])
        (\<lambda>as. bnd (sync_with_db cat_libpq) (\<lambda>r. ret (as, r))) (demo DEFFER_DUMP) =
      (Ret (fst (spec_run [Set ''k'' ''v''] (pg_view ref_dynahash cat_hv ''redis_0'' 0 DEFFER_DUMP (demo DEFFER_DUMP))), 0), s') \<and>
    pg_ok ref_dynahash cat_libpq cat_hv ''redis_0'' 0 DEFFER_DUMP s' \<and>
    pg_view ref_dynahash cat_hv ''redis_0'' 0 DEFFER_DUMP s' =
      snd (spec_run [Set ''k'' ''v''] (pg_view ref_dynahash cat_hv ''redis_0'' 0 DEFFER_DUMP (demo DEFFER_DUMP))) \<and>
    pg_stored cat_hv ''redis_0'' s' =
      snd (spec_run [Set ''k'' ''v''] (pg_view ref_dynahash cat_hv ''redis_0'' 0 DEFFER_DUMP (demo DEFFER_DUMP)))"
  by (rule deferred_requests_reach_the_database [OF demo_pg_ok]) (simp add: demo_key demo_value)

text \<open>C11: Two caching regimes cannot be told apart by their answers: started from states that show the same
  map, they answer the same requests alike.\<close>

theorem regimes_answer_alike:
  fixes s1 s2 :: "('h, 'd, 'e) log_st_scheme"
  assumes "pg_ok D P hv t tn R1 s1" and "pg_ok D P hv t tn R2 s2"
    and "pg_view D hv t tn R1 s1 = pg_view D hv t tn R2 s2"
    and "\<forall>q \<in> set qs. valid_request (key_ok t) (storable R1) q \<and> valid_request (key_ok t) (storable R2) q"
  shows "fst (run_requests (run_request (req_get D P) (req_set D P) (req_del D P)) qs s1) =
    fst (run_requests (run_request (req_get D P) (req_set D P) (req_del D P)) qs s2)"
  using pg_service.requests_refine [OF assms(1), of qs] pg_service.requests_refine [OF assms(2), of qs] assms(3,4)
  by auto

lemma regimes_answer_alike_witness:
  "fst (run_requests (run_request (req_get ref_dynahash cat_libpq) (req_set ref_dynahash cat_libpq) (req_del ref_dynahash cat_libpq))
      [Set ''k'' ''v'', Get ''k''] (demo NO_CACHE)) =
   fst (run_requests (run_request (req_get ref_dynahash cat_libpq) (req_set ref_dynahash cat_libpq) (req_del ref_dynahash cat_libpq))
      [Set ''k'' ''v'', Get ''k''] (demo DEFFER_DUMP))"
  by (rule regimes_answer_alike [OF demo_pg_ok demo_pg_ok]) (simp_all add: demo_view demo_key demo_value)

text \<open>C12: In the regimes up to \<open>GET_CACHE\<close> (that is, in it and in \<open>NO_CACHE\<close>) the cache is never ahead of the database: after any
  requests the database itself holds what the clients see.\<close>

theorem write_through_keeps_the_database_current:
  fixes s :: "('h, 'd, 'e) log_st_scheme"
  assumes "R \<le> GET_CACHE" and "pg_ok D P hv t tn R s"
    and "\<forall>q \<in> set qs. valid_request (key_ok t) (storable R) q"
  shows "\<exists>as s'. run_requests (run_request (req_get D P) (req_set D P) (req_del D P)) qs s = (Ret as, s') \<and>
    pg_stored hv t s' = snd (spec_run qs (pg_view D hv t tn R s))"
proof -
  obtain s' where s': "run_requests (run_request (req_get D P) (req_set D P) (req_del D P)) qs s =
      (Ret (fst (spec_run qs (pg_view D hv t tn R s))), s')" "pg_ok D P hv t tn R s'"
      "pg_view D hv t tn R s' = snd (spec_run qs (pg_view D hv t tn R s))"
    using pg_service.requests_refine [OF assms(2,3)] by blast
  then obtain m u where S: "service D hv t tn R s' m u" by (auto simp: pg_ok_def)
  then have "u = m" using assms(1) serviceD(7) [OF S] serviceD(4) [OF S] by (auto simp: regime_view_def)
  then have "pg_stored hv t s' = pg_view D hv t tn R s'" using service_views [OF S] by simp
  then show ?thesis using s' by auto
qed

lemma write_through_keeps_the_database_current_witness:
  "\<exists>as s'. run_requests (run_request (req_get ref_dynahash cat_libpq) (req_set ref_dynahash cat_libpq) (req_del ref_dynahash cat_libpq))
      [Set ''k'' ''v'', Get ''k''] (demo GET_CACHE) = (Ret as, s') \<and>
    pg_stored cat_hv ''redis_0'' s' =
      snd (spec_run [Set ''k'' ''v'', Get ''k''] (pg_view ref_dynahash cat_hv ''redis_0'' 0 GET_CACHE (demo GET_CACHE)))"
  by (rule write_through_keeps_the_database_current [OF _ demo_pg_ok]) (simp_all add: demo_key demo_value)

text \<open>C13: In the deferred regime fewer than MAX\_COUNT\_OPERATION operations are ever pending between two
  requests, and applying them to the database gives what the clients see: nothing is lost or reordered.\<close>

theorem deferred_log_is_bounded:
  fixes s :: "('h, 'd, 'e) log_st_scheme"
  assumes "pg_ok D P hv t tn DEFFER_DUMP s" and "\<forall>q \<in> set qs. valid_request (key_ok t) (storable DEFFER_DUMP) q"
  shows "\<exists>as s' ws. run_requests (run_request (req_get D P) (req_set D P) (req_del D P)) qs s = (Ret as, s') \<and>
    log_holds t s' ws \<and> int (length ws) < MAX_COUNT_OPERATION \<and>
    fold apply_write ws (pg_stored hv t s') = snd (spec_run qs (pg_view D hv t tn DEFFER_DUMP s))"
proof -
  obtain s' where s': "run_requests (run_request (req_get D P) (req_set D P) (req_del D P)) qs s =
      (Ret (fst (spec_run qs (pg_view D hv t tn DEFFER_DUMP s))), s')" "pg_ok D P hv t tn DEFFER_DUMP s'"
      "pg_view D hv t tn DEFFER_DUMP s' = snd (spec_run qs (pg_view D hv t tn DEFFER_DUMP s))"
    using pg_service.requests_refine [OF assms] by blast
  then obtain m u where S: "service D hv t tn DEFFER_DUMP s' m u" by (auto simp: pg_ok_def)
  then show ?thesis
    using s' serviceD(8) [OF S] service_views [OF S] by (auto simp: log_covers_def)
qed

lemma deferred_log_is_bounded_witness:
  "\<exists>as s' ws. run_requests (run_request (req_get ref_dynahash cat_libpq) (req_set ref_dynahash cat_libpq) (req_del ref_dynahash cat_libpq))
      [Set ''k'' ''v'', Del ''k''] (demo DEFFER_DUMP) = (Ret as, s') \<and>
    log_holds ''redis_0'' s' ws \<and> int (length ws) < MAX_COUNT_OPERATION \<and>
    fold apply_write ws (pg_stored cat_hv ''redis_0'' s') =
      snd (spec_run [Set ''k'' ''v'', Del ''k''] (pg_view ref_dynahash cat_hv ''redis_0'' 0 DEFFER_DUMP (demo DEFFER_DUMP)))"
  by (rule deferred_log_is_bounded [OF demo_pg_ok]) (simp_all add: demo_key demo_value)

text \<open>C9: The operation that fills the log forces a synchronisation: \<^verbatim>\<open>add_log\<close> then leaves an empty log and a
  database with every logged operation applied, the new one last.\<close>

theorem full_log_forces_synchronisation:
  fixes s :: "('h, 'd, 'e) log_st_scheme"
  assumes "hstore_laws P hv" and "table_ok t" and "status_ok t tn s" and "db_ok hv t s m"
    and "log_holds t s ws" and "int (length ws) + 1 = MAX_COUNT_OPERATION"
    and "\<forall>w' \<in> set (ws @ [w]). write_ok w' \<and> safe_write w'"
  shows "\<exists>s'. add_log P (write_op w) (fst w) (value_ptr w) s = (Ret 0, s') \<and> log_holds t s' [] \<and>
    hv (server s') = (hv (server s))(t \<mapsto> fold apply_write (ws @ [w]) m)"
proof -
  have ok: "mallocs_ok s" "loggable w" using assms(4,7) write_ok_loggable by (auto simp: db_ok_def)
  obtain ms l ns where lg: "log_operation (write_op w) (fst w) (value_ptr w) s =
        (Ret 0, s\<lparr>mallocs := ms, logger_op := Ptr l, op_nodes := ns\<rparr>)" "no_refusal ms"
      "log_holds t (s\<lparr>mallocs := ms, logger_op := Ptr l, op_nodes := ns\<rparr>) (ws @ [w])"
    using log_operation_spec [OF assms(5) ok assms(3), of "value_ptr w"] by (auto simp: value_ptr_def)
  let ?s1 = "s\<lparr>mallocs := ms, logger_op := Ptr l, op_nodes := ns\<rparr>"
  have count: "count_operation l = MAX_COUNT_OPERATION" using lg(3) assms(6) by (auto simp: log_holds_def)
  have "log_size t (ws @ [w]) < 2 ^ 31 - 14"
    using log_size_bound [of "ws @ [w]" t] assms(2,6,7) by (auto simp: table_ok_def)
  moreover have "status_ok t tn ?s1" "db_ok hv t ?s1 m" using assms(3,4) lg(2) by (simp_all add: status_ok_def db_ok_def mallocs_ok_def)
  moreover have "NUL \<notin> set t" "\<forall>w' \<in> set (ws @ [w]). safe_write w'" using assms(2,7) by (auto simp: table_ok_def)
  ultimately obtain s' where "sync_with_db P ?s1 = (Ret 0, s')" "log_holds t s' []"
      "hv (server s') = (hv (server ?s1))(t \<mapsto> fold apply_write (ws @ [w]) m)"
    using sync_with_db_spec [OF lg(3) _ _ _ _ _ assms(1), of tn m] by blast
  then show ?thesis using count by (simp add: add_log_def lg(1) the_logger_def run)
qed

abbreviation delete_k :: cache_write where
  "delete_k \<equiv> (''k'', None)"

lemma full_log_forces_synchronisation_witness:
  "\<exists>s'. add_log cat_libpq (write_op delete_k) (fst delete_k) (value_ptr delete_k) (full_log 9999) = (Ret 0, s') \<and>
    log_holds ''redis_0'' s' [] \<and>
    cat_hv (server s') = (cat_hv (server (full_log 9999)))(''redis_0'' \<mapsto>
      fold apply_write (replicate 9999 (''k'', Some ''v'') @ [delete_k]) Map.empty)"
proof (rule full_log_forces_synchronisation [OF cat_hstore_laws demo_table _ _ full_log_holds])
  show "status_ok ''redis_0'' 0 (full_log 9999)" "db_ok cat_hv ''redis_0'' (full_log 9999) Map.empty"
    using demo_status demo_db by (simp_all add: full_log_def status_ok_def db_ok_def mallocs_ok_def)
  show "\<forall>w' \<in> set (replicate 9999 (''k'', Some ''v'') @ [delete_k]). write_ok w' \<and> safe_write w'"
    by (auto simp: write_ok_def safe_write_def sql_safe_def cache_key_def cache_value_def)
qed simp

section \<open>Commands\<close>

text \<open>C7: Every request but COMMAND is answered as the specification says, in every regime: GET, SET, DEL of any
  number of keys and PING, a wrong number of arguments and an unknown command; the code is 0, the internal
  reply has the right type byte and size, and the service goes to the specified map.\<close>

theorem commands_follow_the_specification:
  fixes s :: "('h, 'd, 'e) log_st_scheme"
  assumes "dynahash_laws D" and "hstore_laws P hv" and "table_ok t" and "service D hv t tn R s m u"
    and "command_ok t R cmd as" and "command_spec cmd as u = Some (r, u')"
  shows "\<exists>out' s' m'. process_redis_to_postgres D P (int (length as) + 1) (arg_array (cmd # as)) out s =
      (Ret (arg_array (map big_char cmd # as), 0, out'), s') \<and> internal r out' \<and> service D hv t tn R s' m' u'"
  using process_redis_to_postgres_spec [OF assms, of out] by (fastforce simp: answers_with_def)

lemma commands_follow_the_specification_witness:
  "\<exists>out' s' m'. process_redis_to_postgres ref_dynahash cat_libpq (int (length [''k'', ''v'']) + 1) (arg_array (''set'' # [''k'', ''v'']))
      (NULL, 0) (demo DEFFER_DUMP) = (Ret (arg_array (map big_char ''set'' # [''k'', ''v'']), 0, out'), s') \<and>
    internal (Simple_String ''OK'') out' \<and>
    service ref_dynahash cat_hv ''redis_0'' 0 DEFFER_DUMP s' m' (Map.empty(''k'' \<mapsto> ''v''))"
proof -
  have up: "map big_char ''set'' = ''SET''" by code_simp
  show ?thesis
    by (rule commands_follow_the_specification [OF demo_laws demo_service])
       (simp_all add: command_ok_def command_spec_def up demo_key demo_value del: list.map)
qed

text \<open>The two spellings of a letter, listed.\<close>

definition letter_pairs :: "(char \<times> char) list" where
  "letter_pairs = zip ''abcdefghijklmnopqrstuvwxyz'' ''ABCDEFGHIJKLMNOPQRSTUVWXYZ''"

definition same_but_case :: "char \<Rightarrow> char \<Rightarrow> bool" where
  "same_but_case c c' \<longleftrightarrow> c = c' \<or> (c, c') \<in> set letter_pairs \<or> (c', c) \<in> set letter_pairs"

lemma same_but_case_char:
  assumes "same_but_case c c'"
  shows "big_char c = big_char c'" and "c = NUL \<longleftrightarrow> c' = NUL"
proof -
  have "list_all (\<lambda>(l, u). big_char l = big_char u \<and> l \<noteq> NUL \<and> u \<noteq> NUL) letter_pairs" by code_simp
  then show "big_char c = big_char c'" and "c = NUL \<longleftrightarrow> c' = NUL"
    using assms by (auto simp: same_but_case_def list_all_iff)
qed

lemma same_but_case_command:
  "list_all2 same_but_case cmd cmd' \<Longrightarrow> map big_char cmd = map big_char cmd' \<and> (NUL \<in> set cmd \<longleftrightarrow> NUL \<in> set cmd')"
  by (induction rule: list_all2_induct) (auto dest: same_but_case_char)

text \<open>C30: The case of a command's letters does not matter: two requests whose commands differ in nothing but the
  case of the 26 letters have the same outcome, arguments, answer and state.\<close>

theorem commands_ignore_case:
  assumes "list_all2 same_but_case cmd cmd'" and "NUL \<notin> set cmd" and "n \<noteq> 0"
  shows "process_redis_to_postgres D P n (arg_array (cmd # as)) out s =
    process_redis_to_postgres D P n (arg_array (cmd' # as)) out s"
proof -
  have same: "map big_char cmd = map big_char cmd'" and nul: "NUL \<notin> set cmd'"
    using same_but_case_command [OF assms(1)] assms(2) by simp_all
  show ?thesis
    using arg_array_upper(2) [OF assms(2), of as] arg_array_upper(2) [OF nul, of as] same assms(3)
    by (simp add: process_redis_to_postgres_def Let_def
        bnd_Ret [of "arg_at _ _", OF arg_array_upper(1) [OF assms(2)]]
        bnd_Ret [of "arg_at _ _", OF arg_array_upper(1) [OF nul]] cong: if_cong)
qed

lemma commands_ignore_case_witness:
  "process_redis_to_postgres ref_dynahash cat_libpq 1 (arg_array (''PiNg'' # [])) (NULL, 0) (demo NO_CACHE) =
   process_redis_to_postgres ref_dynahash cat_libpq 1 (arg_array (''PING'' # [])) (NULL, 0) (demo NO_CACHE)"
proof (rule commands_ignore_case)
  show "list_all2 same_but_case ''PiNg'' ''PING''" by code_simp
qed simp_all

text \<open>C25: A value too long for the cache, set under a key that is already cached, goes to the database but not
  to the cache: the next GET still answers the old value, in every caching regime.\<close>

theorem oversize_value_is_shadowed:
  fixes s :: "('h, 'd, 'e) log_st_scheme"
  assumes "hstore_laws P hv" and "dynahash_laws D" and "table_ok t" and "key_ok t k" and "cache_key k"
    and "service D hv t tn R s m u" and "R \<noteq> NO_CACHE" and "cache_view D tn s k = Some (Present old)"
    and "sql_safe v" and "VALUE_SIZE \<le> strlen v + 1" and "strlen v < 2 ^ 28"
  shows "\<exists>s'. run_requests (run_request (req_get D P) (req_set D P) (req_del D P)) [Set k v, Get k] s =
      (Ret [(OK, NULL), (OK, Ptr old)], s') \<and> hv (server s') t = Some (m(k \<mapsto> v))"
  using oversize_set_then_get [OF assms] .

lemma oversize_value_is_shadowed_witness:
  "\<exists>s1 m s'. req_set ref_dynahash cat_libpq ''k'' ''old'' (demo ONLY_CACHE) = (Ret OK, s1) \<and>
    run_requests (run_request (req_get ref_dynahash cat_libpq) (req_set ref_dynahash cat_libpq) (req_del ref_dynahash cat_libpq))
      [Set ''k'' (replicate 120 CHR ''x''), Get ''k''] s1 = (Ret [(OK, NULL), (OK, Ptr ''old'')], s') \<and>
    cat_hv (server s') ''redis_0'' = Some (m(''k'' \<mapsto> replicate 120 CHR ''x''))"
proof -
  have kv: "key_ok ''redis_0'' ''k''" "storable ONLY_CACHE ''k'' ''old''" "cache_key ''k''" "cache_value ''old''"
    by (simp_all add: demo_key storable_def sql_safe_def strlen_def cache_value_def cache_key_def)
  obtain s1 m where s1: "req_set ref_dynahash cat_libpq ''k'' ''old'' (demo ONLY_CACHE) = (Ret OK, s1)"
      "service ref_dynahash cat_hv ''redis_0'' 0 ONLY_CACHE s1 m (Map.empty(''k'' \<mapsto> ''old''))"
    using req_set_spec [OF ref_dynahash_laws cat_hstore_laws demo_table kv(1,2) demo_service] by blast
  have view: "cache_view ref_dynahash 0 s1 ''k'' = Some (Present ''old'')"
    using only_cache_set [OF ref_dynahash_laws demo_service kv(3,4), of cat_libpq] s1(1) by auto
  have "\<exists>s'. run_requests (run_request (req_get ref_dynahash cat_libpq) (req_set ref_dynahash cat_libpq) (req_del ref_dynahash cat_libpq))
      [Set ''k'' (replicate 120 CHR ''x''), Get ''k''] s1 = (Ret [(OK, NULL), (OK, Ptr ''old'')], s') \<and>
    cat_hv (server s') ''redis_0'' = Some (m(''k'' \<mapsto> replicate 120 CHR ''x''))"
    by (rule oversize_value_is_shadowed [OF cat_hstore_laws ref_dynahash_laws demo_table kv(1,3) s1(2) _ view])
       (simp_all add: sql_safe_def strlen_def)
  then show ?thesis using s1(1) by blast
qed

end
